theory Spec2Isabelle
  imports Main "HOL-Library.Word"
begin

section \<open>ECMAScript strings\<close>

text \<open>
  A string of the language is a sequence of 16-bit code units. \<open>js\<close> writes one from
  its ASCII characters. \<open>indexOf\<close>, \<open>slice\<close> and \<open>trim\<close> are the methods of
  \<open>String.prototype\<close> that \<open>generateSubtitles\<close> and \<open>handleDownloadClick\<close> call.
\<close>

type_synonym jschar = "16 word"

type_synonym jsstring = "jschar list"

abbreviation js :: "string \<Rightarrow> jsstring" where
  "js s \<equiv> map of_char s"

definition NL :: jschar where
  "NL = 0x0A"

text \<open>\<open>s.indexOf(c)\<close> for a search string of one code unit: the first index, or -1.\<close>

primrec indexOf :: "jsstring \<Rightarrow> jschar \<Rightarrow> int" where
  "indexOf [] c = -1"
| "indexOf (x # xs) c =
     (if x = c then 0 else (let i = indexOf xs c in if i = -1 then -1 else i + 1))"

text \<open>\<open>s.slice(start, end)\<close>: negative positions count from the end, all are clamped.\<close>

definition slice :: "jsstring \<Rightarrow> int \<Rightarrow> int \<Rightarrow> jsstring" where
  "slice s start fin =
     (let len = int (length s);
          from = (if start < 0 then max (len + start) 0 else min start len);
          to = (if fin < 0 then max (len + fin) 0 else min fin len)
      in take (nat (to - from)) (drop (nat from) s))"

text \<open>\<open>s.slice(start)\<close>: the end defaults to the length.\<close>

definition slice_from :: "jsstring \<Rightarrow> int \<Rightarrow> jsstring" where
  "slice_from s start = slice s start (int (length s))"

text \<open>
  The white space and the line terminators of the language, which \<open>trim\<close> removes: TAB,
  LF, VT, FF, CR, SP, NBSP, the other space separators of Unicode (U+1680, U+2000 to
  U+200A, U+202F, U+205F, U+3000), LS, PS and the byte order mark.
\<close>

definition WhiteSpace :: "jschar \<Rightarrow> bool" where
  "WhiteSpace c \<longleftrightarrow>
     c \<in> set [0x09, 0x0A, 0x0B, 0x0C, 0x0D, 0x20, 0xA0, 0x1680, 0x2028, 0x2029, 0x202F,
              0x205F, 0x3000, 0xFEFF] \<or>
     (0x2000 \<le> c \<and> c \<le> 0x200A)"

definition trimStart :: "jsstring \<Rightarrow> jsstring" where
  "trimStart s = dropWhile WhiteSpace s"

definition trimEnd :: "jsstring \<Rightarrow> jsstring" where
  "trimEnd s = rev (dropWhile WhiteSpace (rev s))"

definition trim :: "jsstring \<Rightarrow> jsstring" where
  "trim s = trimEnd (trimStart s)"

section \<open>Numbers\<close>

text \<open>
  A number of the language is an IEEE-754 double. \<open>Finite neg m e\<close> is the finite double
  of sign \<open>neg\<close> and magnitude \<open>m * 2 ^ e\<close>, with \<open>m\<close> odd, or \<open>m = 0\<close> and \<open>e = 0\<close> for
  the two zeros; \<open>Infinity neg\<close> are the two infinities. \<open>NaN\<close> is left out: \<open>JSON.parse\<close>
  does not make it.
\<close>

datatype number = Finite bool int int | Infinity bool

function bitlen :: "int \<Rightarrow> int" where
  "bitlen n = (if n \<le> 0 then 0 else 1 + bitlen (n div 2))"
  by pat_completeness auto
termination
  by (relation "measure nat") auto

declare bitlen.simps [simp del]

function declen :: "int \<Rightarrow> int" where
  "declen n = (if n \<le> 0 then 0 else 1 + declen (n div 10))"
  by pat_completeness auto
termination
  by (relation "measure nat") auto

declare declen.simps [simp del]

text \<open>The quotient of two positive integers, rounded to the nearest, ties to even.\<close>

definition round_half_even :: "int \<Rightarrow> int \<Rightarrow> int" where
  "round_half_even num den =
     (let q = num div den; r = num mod den
      in if 2 * r < den then q
         else if den < 2 * r then q + 1
         else if even q then q else q + 1)"

function strip2 :: "int \<Rightarrow> int \<Rightarrow> int \<times> int" where
  "strip2 m e =
     (if m \<le> 0 then (0, 0) else if even m then strip2 (m div 2) (e + 1) else (m, e))"
  by pat_completeness auto
termination
  by (relation "measure (\<lambda>(m, e). nat m)") auto

declare strip2.simps [simp del]

text \<open>
  The double nearest to \<open>d * 10 ^ x\<close>, for \<open>d\<close> not negative: the value is a quotient
  \<open>num / den\<close>, \<open>fl\<close> is the floor of its binary logarithm, \<open>p\<close> the exponent of the unit
  in the last place (not below that of the subnormal numbers) and \<open>q\<close> the significand,
  of 53 bits at most before it is rounded. A value of \<open>2 ^ 1024\<close> and more is infinite.
\<close>

definition to_double :: "bool \<Rightarrow> int \<Rightarrow> int \<Rightarrow> number" where
  "to_double neg d x =
     (if d \<le> 0 then Finite neg 0 0
      else
        (let num = (if 0 \<le> x then d * 10 ^ nat x else d);
             den = (if 0 \<le> x then 1 else 10 ^ nat (- x));
             b = bitlen num - bitlen den;
             fl = (if (if 0 \<le> b then den * 2 ^ nat b \<le> num else den \<le> num * 2 ^ nat (- b))
                   then b else b - 1);
             p = max (fl - 52) (- 1074);
             q = (if 0 \<le> p then round_half_even num (den * 2 ^ nat p)
                  else round_half_even (num * 2 ^ nat (- p)) den)
         in if q = 0 then Finite neg 0 0
            else if 1024 < bitlen q + p then Infinity neg
            else (case strip2 q p of (m, e) \<Rightarrow> Finite neg m e)))"

text \<open>
  \<open>Number::toString\<close> in radix 10. The language standard asks for integers \<open>n\<close>, \<open>k\<close>
  and \<open>s\<close>, with \<open>s\<close> of \<open>k\<close> digits and \<open>k\<close> as small as possible, such that the double
  nearest to \<open>s * 10 ^ (n - k)\<close> is the number; of several \<open>s\<close> the engines take the one
  nearest to the number. For \<open>k\<close> digits the candidates are the two integers around
  the number scaled by \<open>10 ^ (k - n)\<close>; 17 digits always suffice.
\<close>

function strip10 :: "int \<Rightarrow> int" where
  "strip10 s = (if s \<le> 0 then 0 else if s mod 10 = 0 then strip10 (s div 10) else s)"
  by pat_completeness auto
termination
  by (relation "measure nat") auto

declare strip10.simps [simp del]

definition candidate :: "int \<Rightarrow> int \<Rightarrow> int \<Rightarrow> int \<Rightarrow> int \<Rightarrow> int \<Rightarrow> (int \<times> int) option" where
  "candidate m e num den n k =
     (let a = (if n \<le> k then num * 10 ^ nat (k - n) else num);
          b = (if n \<le> k then den else den * 10 ^ nat (n - k));
          lo = a div b;
          hi = lo + 1;
          r = a mod b;
          ok_lo = (to_double False lo (n - k) = Finite False m e);
          ok_hi = (to_double False hi (n - k) = Finite False m e);
          c = (if ok_lo \<and> ok_hi then
                 (if r < b - r then lo else if b - r < r then hi
                  else if even lo then lo else hi)
               else if ok_lo then lo else hi)
      in if ok_lo \<or> ok_hi then Some (strip10 c, declen c + (n - k)) else None)"

fun shortest_from :: "int \<Rightarrow> int \<Rightarrow> int \<Rightarrow> int \<Rightarrow> int \<Rightarrow> int list \<Rightarrow> int \<times> int" where
  "shortest_from m e num den n [] = (0, 0)"
| "shortest_from m e num den n (k # ks) =
     (case candidate m e num den n k of
        Some r \<Rightarrow> r
      | None \<Rightarrow> shortest_from m e num den n ks)"

text \<open>The digits \<open>s\<close> and the position \<open>n\<close> of the decimal point, for \<open>m * 2 ^ e\<close>.\<close>

definition shortest :: "int \<Rightarrow> int \<Rightarrow> int \<times> int" where
  "shortest m e =
     (let num = (if 0 \<le> e then m * 2 ^ nat e else m);
          den = (if 0 \<le> e then 1 else 2 ^ nat (- e));
          d = declen num - declen den;
          fl = (if (if 0 \<le> d then den * 10 ^ nat d \<le> num else den \<le> num * 10 ^ nat (- d))
                then d else d - 1);
          n = fl + 1
      in shortest_from m e num den n [1, 2, 3, 4, 5, 6, 7, 8, 9, 10, 11, 12, 13, 14, 15, 16, 17])"

definition digit_char :: "int \<Rightarrow> jschar" where
  "digit_char d = word_of_int (48 + d)"

function show_nat :: "int \<Rightarrow> jsstring" where
  "show_nat n = (if n < 10 then [digit_char n] else show_nat (n div 10) @ [digit_char (n mod 10)])"
  by pat_completeness auto
termination
  by (relation "measure nat") auto

declare show_nat.simps [simp del]

text \<open>The digits \<open>s\<close> and the position \<open>n\<close> written out, by the steps of the standard.\<close>

definition show_digits :: "int \<Rightarrow> int \<Rightarrow> jsstring" where
  "show_digits s n =
     (let ds = show_nat s;
          k = int (length ds)
      in if k \<le> n \<and> n \<le> 21 then ds @ replicate (nat (n - k)) (0x30)
         else if 0 < n \<and> n \<le> 21 then take (nat n) ds @ js ''.'' @ drop (nat n) ds
         else if - 6 < n \<and> n \<le> 0 then js ''0.'' @ replicate (nat (- n)) (0x30) @ ds
         else
           (let x = n - 1;
                ex = (if x < 0 then js ''-'' else js ''+'') @ show_nat \<bar>x\<bar>
            in if k = 1 then ds @ js ''e'' @ ex
               else take 1 ds @ js ''.'' @ drop 1 ds @ js ''e'' @ ex))"

fun Number_toString :: "number \<Rightarrow> jsstring" where
  "Number_toString (Infinity neg) = (if neg then js ''-Infinity'' else js ''Infinity'')"
| "Number_toString (Finite neg m e) =
     (if m = 0 then js ''0''
      else (if neg then js ''-'' else []) @ (case shortest m e of (s, n) \<Rightarrow> show_digits s n))"

section \<open>JSON values\<close>

datatype json =
    JNull
  | JBool bool
  | JNumber number
  | JString jsstring
  | JArray "json list"
  | JObject "(jsstring \<times> json) list"

text \<open>
  What a \<open>try\<close> block of the program can catch: the \<open>SyntaxError\<close> of \<open>JSON.parse\<close>,
  the \<open>TypeError\<close> of a property read on \<open>null\<close>, a rejection by the file reader or by
  the model service, and an \<open>Error\<close> object made by \<open>new Error(message)\<close>, whose message
  is a literal of the source.
\<close>

datatype js_error = SyntaxError | TypeError | Rejected | Error string

subsection \<open>\<open>JSON.parse\<close>\<close>

text \<open>
  \<open>JSON.parse\<close> is a built-in of the language; it is modelled from the JSON grammar
  (ECMA-404) as a recursive descent parser. The code units of its punctuation are
  written as numbers: quote 0x22, backslash 0x5C, comma 0x2C, colon 0x3A, brackets 0x5B
  and 0x5D, braces 0x7B and 0x7D, minus 0x2D, plus 0x2B, point 0x2E, the digits from
  0x30, the letters \<open>a\<close> from 0x61 and \<open>A\<close> from 0x41. A number is the double nearest to its
  literal. In an object, the members are kept in the order of the text; a property
  read takes the last one of a repeated name. The recursion of the parser is on a
  bound, twice the length of the text and one, that it never exhausts
  (\<open>JSON_parse_fuel\<close> below).
\<close>

definition json_ws :: "jschar \<Rightarrow> bool" where
  "json_ws c \<longleftrightarrow> c \<in> set [0x20, 0x09, 0x0A, 0x0D]"

definition skip_ws :: "jsstring \<Rightarrow> jsstring" where
  "skip_ws s = dropWhile json_ws s"

definition is_digit :: "jschar \<Rightarrow> bool" where
  "is_digit c \<longleftrightarrow> 0x30 \<le> c \<and> c \<le> 0x39"

definition digit_val :: "jschar \<Rightarrow> int" where
  "digit_val c = uint c - 0x30"

definition int_of_digits :: "jsstring \<Rightarrow> int" where
  "int_of_digits ds = foldl (\<lambda>n c. 10 * n + digit_val c) 0 ds"

definition hex_val :: "jschar \<Rightarrow> int option" where
  "hex_val c =
     (if 0x30 \<le> c \<and> c \<le> 0x39 then Some (uint c - 0x30)
      else if 0x61 \<le> c \<and> c \<le> 0x66 then Some (uint c - 0x61 + 10)
      else if 0x41 \<le> c \<and> c \<le> 0x46 then Some (uint c - 0x41 + 10)
      else None)"

definition escape :: "jschar \<Rightarrow> jschar option" where
  "escape e =
     (if e = 0x22 then Some 0x22
      else if e = 0x5C then Some 0x5C
      else if e = 0x2F then Some (0x2F)
      else if e = 0x62 then Some 0x08
      else if e = 0x66 then Some 0x0C
      else if e = 0x6E then Some 0x0A
      else if e = 0x72 then Some 0x0D
      else if e = 0x74 then Some 0x09
      else None)"

text \<open>The characters of a string, after its opening quote, and the text after it.\<close>

fun parse_chars :: "jsstring \<Rightarrow> (jsstring \<times> jsstring) option" where
  "parse_chars [] = None"
| "parse_chars (c # cs) =
     (if c = 0x22 then Some ([], cs)
      else if c = 0x5C then
        (case cs of
           [] \<Rightarrow> None
         | e # r \<Rightarrow>
             if e = 0x75 then
               (case r of
                  h1 # h2 # h3 # h4 # r' \<Rightarrow>
                    (case (hex_val h1, hex_val h2, hex_val h3, hex_val h4) of
                       (Some a, Some b, Some c, Some d) \<Rightarrow>
                         (case parse_chars r' of
                            None \<Rightarrow> None
                          | Some (str, rest) \<Rightarrow>
                              Some (word_of_int (((a * 16 + b) * 16 + c) * 16 + d) # str, rest))
                     | _ \<Rightarrow> None)
                | _ \<Rightarrow> None)
             else
               (case escape e of
                  None \<Rightarrow> None
                | Some x \<Rightarrow>
                    (case parse_chars r of
                       None \<Rightarrow> None
                     | Some (str, rest) \<Rightarrow> Some (x # str, rest))))
      else if c < 0x20 then None
      else
        (case parse_chars cs of
           None \<Rightarrow> None
         | Some (str, rest) \<Rightarrow> Some (c # str, rest)))"

text \<open>
  A number literal: a minus sign, digits without a leading zero, a fraction and an
  exponent, the last three optional.
\<close>

definition parse_number :: "jsstring \<Rightarrow> (number \<times> jsstring) option" where
  "parse_number s =
     (let neg = (case s of c # _ \<Rightarrow> c = 0x2D | [] \<Rightarrow> False);
          s1 = (if neg then tl s else s);
          ds = takeWhile is_digit s1;
          s2 = dropWhile is_digit s1;
          has_frac = (case s2 of c # _ \<Rightarrow> c = 0x2E | [] \<Rightarrow> False);
          fs = (if has_frac then takeWhile is_digit (tl s2) else []);
          s3 = (if has_frac then dropWhile is_digit (tl s2) else s2);
          has_exp = (case s3 of c # _ \<Rightarrow> c = 0x65 \<or> c = 0x45
                     | [] \<Rightarrow> False);
          s4 = (if has_exp then tl s3 else s3);
          eneg = (case s4 of c # _ \<Rightarrow> has_exp \<and> c = 0x2D | [] \<Rightarrow> False);
          epos = (case s4 of c # _ \<Rightarrow> has_exp \<and> c = 0x2B | [] \<Rightarrow> False);
          s5 = (if eneg \<or> epos then tl s4 else s4);
          es = (if has_exp then takeWhile is_digit s5 else []);
          s6 = (if has_exp then dropWhile is_digit s5 else s5);
          x = (if eneg then - int_of_digits es else int_of_digits es) - int (length fs)
      in if ds = [] \<or> (1 < length ds \<and> hd ds = 0x30) then None
         else if has_frac \<and> fs = [] then None
         else if has_exp \<and> es = [] then None
         else Some (to_double neg (int_of_digits (ds @ fs)) x, s6))"

datatype 'a parsed = OutOfFuel | Unexpected | Ok 'a jsstring

fun parse_value :: "nat \<Rightarrow> jsstring \<Rightarrow> json parsed"
  and parse_elements :: "nat \<Rightarrow> jsstring \<Rightarrow> json list \<Rightarrow> json parsed"
  and parse_members :: "nat \<Rightarrow> jsstring \<Rightarrow> (jsstring \<times> json) list \<Rightarrow> json parsed"
where
  "parse_value 0 s = OutOfFuel"
| "parse_value (Suc n) s =
     (case s of
        [] \<Rightarrow> Unexpected
      | c # cs \<Rightarrow>
          if c = 0x7B then
            (case skip_ws cs of
               [] \<Rightarrow> Unexpected
             | d # r \<Rightarrow> if d = 0x7D then Ok (JObject []) r
                        else parse_members n (d # r) [])
          else if c = 0x5B then
            (case skip_ws cs of
               [] \<Rightarrow> Unexpected
             | d # r \<Rightarrow> if d = 0x5D then Ok (JArray []) r
                        else parse_elements n (d # r) [])
          else if c = 0x22 then
            (case parse_chars cs of
               None \<Rightarrow> Unexpected
             | Some (str, r) \<Rightarrow> Ok (JString str) r)
          else if take 4 s = js ''true'' then Ok (JBool True) (drop 4 s)
          else if take 5 s = js ''false'' then Ok (JBool False) (drop 5 s)
          else if take 4 s = js ''null'' then Ok JNull (drop 4 s)
          else
            (case parse_number s of
               None \<Rightarrow> Unexpected
             | Some (x, r) \<Rightarrow> Ok (JNumber x) r))"
| "parse_elements 0 s acc = OutOfFuel"
| "parse_elements (Suc n) s acc =
     (case parse_value n s of
        OutOfFuel \<Rightarrow> OutOfFuel
      | Unexpected \<Rightarrow> Unexpected
      | Ok v r \<Rightarrow>
          (case skip_ws r of
             [] \<Rightarrow> Unexpected
           | d # r' \<Rightarrow>
               if d = 0x2C then parse_elements n (skip_ws r') (acc @ [v])
               else if d = 0x5D then Ok (JArray (acc @ [v])) r'
               else Unexpected))"
| "parse_members 0 s acc = OutOfFuel"
| "parse_members (Suc n) s acc =
     (case s of
        [] \<Rightarrow> Unexpected
      | q # cs \<Rightarrow>
          if q \<noteq> 0x22 then Unexpected
          else
            (case parse_chars cs of
               None \<Rightarrow> Unexpected
             | Some (k, r) \<Rightarrow>
                 (case skip_ws r of
                    [] \<Rightarrow> Unexpected
                  | col # r' \<Rightarrow>
                      if col \<noteq> 0x3A then Unexpected
                      else
                        (case parse_value n (skip_ws r') of
                           OutOfFuel \<Rightarrow> OutOfFuel
                         | Unexpected \<Rightarrow> Unexpected
                         | Ok v r'' \<Rightarrow>
                             (case skip_ws r'' of
                                [] \<Rightarrow> Unexpected
                              | d # t \<Rightarrow>
                                  if d = 0x2C then
                                    parse_members n (skip_ws t) (acc @ [(k, v)])
                                  else if d = 0x7D then
                                    Ok (JObject (acc @ [(k, v)])) t
                                  else Unexpected)))))"

definition JSON_parse :: "jsstring \<Rightarrow> js_error + json" where
  "JSON_parse text =
     (case parse_value (Suc (2 * length text)) (skip_ws text) of
        Ok v r \<Rightarrow> if skip_ws r = [] then Inr v else Inl SyntaxError
      | _ \<Rightarrow> Inl SyntaxError)"

subsection \<open>Property reads, \<open>typeof\<close> and string conversion\<close>

text \<open>
  \<open>value.name\<close> for a value made by \<open>JSON.parse\<close> and a name that no built-in prototype
  defines (\<open>id\<close>, \<open>startTime\<close>, \<open>endTime\<close> and \<open>text\<close> are such names): \<open>null\<close> throws
  a \<open>TypeError\<close>, an object gives its own property, everything else \<open>undefined\<close>,
  which is \<open>None\<close>.
\<close>

fun property :: "json \<Rightarrow> jsstring \<Rightarrow> js_error + json option" where
  "property JNull key = Inl TypeError"
| "property (JObject members) key = Inr (map_of (rev members) key)"
| "property _ key = Inr None"

fun typeof :: "json option \<Rightarrow> string" where
  "typeof None = ''undefined''"
| "typeof (Some JNull) = ''object''"
| "typeof (Some (JBool _)) = ''boolean''"
| "typeof (Some (JNumber _)) = ''number''"
| "typeof (Some (JString _)) = ''string''"
| "typeof (Some (JArray _)) = ''object''"
| "typeof (Some (JObject _)) = ''object''"

fun join :: "jsstring \<Rightarrow> jsstring list \<Rightarrow> jsstring" where
  "join sep [] = []"
| "join sep [x] = x"
| "join sep (x # y # ys) = x @ sep @ join sep (y # ys)"

text \<open>\<open>ToString\<close> of a value, as a template literal applies it to \<open>${value}\<close>.\<close>

fun ToString_json :: "json \<Rightarrow> jsstring" where
  "ToString_json JNull = js ''null''"
| "ToString_json (JBool b) = (if b then js ''true'' else js ''false'')"
| "ToString_json (JNumber x) = Number_toString x"
| "ToString_json (JString s) = s"
| "ToString_json (JArray xs) =
     join (js '','') (map (\<lambda>x. if x = JNull then [] else ToString_json x) xs)"
| "ToString_json (JObject members) = js ''[object Object]''"

definition ToString :: "json option \<Rightarrow> jsstring" where
  "ToString v = (case v of None \<Rightarrow> js ''undefined'' | Some x \<Rightarrow> ToString_json x)"

section \<open>The streaming response parser: \<open>generateSubtitles\<close>\<close>

text \<open>
  The response of \<open>ai.models.generateContentStream\<close>: the request is rejected, or it
  gives an asynchronous iterator, which yields a chunk, ends, or throws. A chunk is
  what its \<open>text\<close> property gives: a string, or \<open>undefined\<close> (\<open>None\<close>) for a response
  that has no text.
\<close>

datatype stream = Done | Chunk "jsstring option" stream | Throw

text \<open>
  The condition of the \<open>if\<close> around \<open>onProgress(parsed)\<close>. \<open>&&\<close> evaluates from the
  left and stops at the first operand that is false; a property read that throws leaves
  the condition through the exception.
\<close>

definition basic_validation :: "json \<Rightarrow> js_error + bool" where
  "basic_validation parsed =
     (case property parsed (js ''id'') of
        Inl e \<Rightarrow> Inl e
      | Inr i \<Rightarrow>
          if typeof i \<noteq> ''number'' then Inr False
          else
            (case property parsed (js ''startTime'') of
               Inl e \<Rightarrow> Inl e
             | Inr st \<Rightarrow>
                 if typeof st \<noteq> ''string'' then Inr False
                 else
                   (case property parsed (js ''endTime'') of
                      Inl e \<Rightarrow> Inl e
                    | Inr en \<Rightarrow>
                        if typeof en \<noteq> ''string'' then Inr False
                        else
                          (case property parsed (js ''text'') of
                             Inl e \<Rightarrow> Inl e
                           | Inr t \<Rightarrow> Inr (typeof t = ''string'')))))"

text \<open>
  The \<open>try\<close> block applied to a line, which the source has twice, for a line of the
  loop and for the rest of the buffer: parse, validate, call \<open>onProgress\<close>. The \<open>catch\<close>
  logs a warning to the console, which is not part of the state, and goes on. The
  callback is a function on the state of its owner.
\<close>

definition parse_line :: "(json \<Rightarrow> 's \<Rightarrow> 's) \<Rightarrow> jsstring \<Rightarrow> 's \<Rightarrow> 's" where
  "parse_line onProgress line st =
     (case JSON_parse line of
        Inl e \<Rightarrow> st
      | Inr parsed \<Rightarrow>
          (case basic_validation parsed of
             Inl e \<Rightarrow> st
           | Inr valid \<Rightarrow> if valid then onProgress parsed st else st))"

text \<open>The \<open>while\<close> loop over the newlines of the buffer, for one chunk.\<close>

function extract_lines :: "(json \<Rightarrow> 's \<Rightarrow> 's) \<Rightarrow> jsstring \<Rightarrow> 's \<Rightarrow> jsstring \<times> 's" where
  "extract_lines onProgress buffer st =
     (let newlineIndex = indexOf buffer NL
      in if newlineIndex \<noteq> - 1 then
           (let line = trim (slice buffer 0 newlineIndex);
                buffer' = slice_from buffer (newlineIndex + 1)
            in extract_lines onProgress buffer'
                 (if line \<noteq> [] then parse_line onProgress line st else st))
         else (buffer, st))"
  by pat_completeness auto

lemma indexOf_ge: "- 1 \<le> indexOf s c"
  by (induction s) (auto simp: Let_def)

lemma indexOf_less: "indexOf s c < int (length s)"
  by (induction s) (auto simp: Let_def)

lemma length_slice_from: "0 \<le> i \<Longrightarrow> length (slice_from s i) = length s - nat i"
  by (auto simp: slice_from_def slice_def Let_def min_def)

termination extract_lines
proof (relation "measure (\<lambda>(onProgress, buffer, st). length buffer)", goal_cases)
  case 1
  show ?case by simp
next
  case (2 onProgress buffer st newlineIndex line buffer')
  have "0 \<le> newlineIndex" "newlineIndex < int (length buffer)"
    using 2 indexOf_ge [of buffer NL] indexOf_less [of buffer NL] by auto
  then show ?case
    using 2 by (simp add: length_slice_from)
qed

declare extract_lines.simps [simp del]

text \<open>
  \<open>buffer += chunk.text\<close>: the concatenation converts \<open>undefined\<close> to the string
  \<open>undefined\<close>.
\<close>

definition append_text :: "jsstring \<Rightarrow> jsstring option \<Rightarrow> jsstring" where
  "append_text buffer text = buffer @ (case text of None \<Rightarrow> js ''undefined'' | Some t \<Rightarrow> t)"

text \<open>The \<open>for await\<close> loop: the buffer and the state after the chunks, or the throw.\<close>

fun for_await ::
    "(json \<Rightarrow> 's \<Rightarrow> 's) \<Rightarrow> stream \<Rightarrow> jsstring \<Rightarrow> 's \<Rightarrow> (js_error + jsstring) \<times> 's" where
  "for_await onProgress Done buffer st = (Inr buffer, st)"
| "for_await onProgress (Chunk text rest) buffer st =
     (case extract_lines onProgress (append_text buffer text) st of
        (buffer', st') \<Rightarrow> for_await onProgress rest buffer' st')"
| "for_await onProgress Throw buffer st = (Inl Rejected, st)"

text \<open>
  \<open>generateSubtitles\<close>. The model service \<open>ai\<close> is a parameter: it maps the transcript
  and the audio (MIME type and data; the prompt and the model's name are constants) to
  its response. The result is the outcome of the promise, resolved or rejected with the
  \<open>Error\<close> of the outer \<open>catch\<close>, and the state of the callback's owner after the calls of
  \<open>onProgress\<close>.
\<close>

definition generateSubtitles ::
    "(jsstring \<Rightarrow> jsstring \<times> jsstring \<Rightarrow> js_error + stream) \<Rightarrow> jsstring \<Rightarrow>
     jsstring \<times> jsstring \<Rightarrow> (json \<Rightarrow> 's \<Rightarrow> 's) \<Rightarrow> 's \<Rightarrow> (js_error + unit) \<times> 's" where
  "generateSubtitles ai transcript audio onProgress st =
     (case ai transcript audio of
        Inl error \<Rightarrow> (Inl (Error ''Failed to communicate with the AI model.''), st)
      | Inr stream \<Rightarrow>
          (case for_await onProgress stream [] st of
             (Inl error, st') \<Rightarrow> (Inl (Error ''Failed to communicate with the AI model.''), st')
           | (Inr buffer, st') \<Rightarrow>
               (Inr (),
                if trim buffer \<noteq> [] then parse_line onProgress (trim buffer) st' else st')))"

section \<open>The orchestrator: \<open>App\<close>\<close>

record File =
  name :: jsstring

record App =
  textFile :: "File option"
  audioFile :: "File option"
  srtContent :: jsstring
  isLoading :: bool
  loadingMessage :: string
  error :: "string option"
  progress :: nat

definition handleTextFileChange :: "File option \<Rightarrow> App \<Rightarrow> App" where
  "handleTextFileChange file st = st\<lparr>textFile := file, srtContent := [], error := None\<rparr>"

definition handleAudioFileChange :: "File option \<Rightarrow> App \<Rightarrow> App" where
  "handleAudioFileChange file st = st\<lparr>audioFile := file, srtContent := [], error := None\<rparr>"

text \<open>The template literal of \<open>onProgress\<close>, with its four property reads.\<close>

definition srtBlock :: "json \<Rightarrow> js_error + jsstring" where
  "srtBlock block =
     (case property block (js ''id'') of
        Inl e \<Rightarrow> Inl e
      | Inr i \<Rightarrow>
          (case property block (js ''startTime'') of
             Inl e \<Rightarrow> Inl e
           | Inr st \<Rightarrow>
               (case property block (js ''endTime'') of
                  Inl e \<Rightarrow> Inl e
                | Inr en \<Rightarrow>
                    (case property block (js ''text'') of
                       Inl e \<Rightarrow> Inl e
                     | Inr t \<Rightarrow>
                         Inr (ToString i @ [NL] @ ToString st @ js '' --> '' @ ToString en @ [NL]
                              @ ToString t @ [NL, NL])))))"

text \<open>
  \<open>onProgress\<close>: the functional update of \<open>srtContent\<close>. Were the template to throw, the
  exception would leave the callback before the update, into the \<open>try\<close> of the caller.
\<close>

definition onProgress :: "json \<Rightarrow> App \<Rightarrow> App" where
  "onProgress block st =
     (case srtBlock block of
        Inl e \<Rightarrow> st
      | Inr text \<Rightarrow> st\<lparr>srtContent := srtContent st @ text\<rparr>)"

text \<open>The \<open>catch\<close> of \<open>handleGenerateClick\<close>.\<close>

definition catch_err :: "App \<Rightarrow> App" where
  "catch_err st =
     st\<lparr>error := Some ''Failed to generate subtitles. Please check the files and try again.'',
        isLoading := False, loadingMessage := [], progress := 0\<rparr>"

text \<open>
  \<open>handleGenerateClick\<close>, from the outcomes of its three awaits: reading the transcript,
  reading the audio, and the response of the model service to the request made of both.
  The state is the one when the promise of the handler settles; the timer that the
  success path starts is \<open>timeout_fired\<close>.
\<close>

definition handleGenerateClick ::
    "js_error + jsstring \<Rightarrow> js_error + jsstring \<times> jsstring \<Rightarrow>
     (jsstring \<Rightarrow> jsstring \<times> jsstring \<Rightarrow> js_error + stream) \<Rightarrow> App \<Rightarrow> App" where
  "handleGenerateClick fileToText fileToBase64 ai st =
     (if textFile st = None \<or> audioFile st = None then st
      else
        (let st1 = st\<lparr>isLoading := True, error := None, srtContent := [], progress := 0,
                       loadingMessage := ''Preparing files...''\<rparr>;
             st2 = st1\<lparr>progress := 10\<rparr>
         in case fileToText of
              Inl err \<Rightarrow> catch_err st2
            | Inr transcript \<Rightarrow>
                (let st3 = st2\<lparr>loadingMessage := ''Uploading and analyzing audio...'',
                               progress := 30\<rparr>
                 in case fileToBase64 of
                      Inl err \<Rightarrow> catch_err st3
                    | Inr audioData \<Rightarrow>
                        (let st4 = st3\<lparr>loadingMessage := ''Generating synchronized subtitles...'',
                                       progress := 50\<rparr>
                         in case generateSubtitles ai transcript audioData onProgress st4 of
                              (Inl err, st5) \<Rightarrow> catch_err st5
                            | (Inr u, st5) \<Rightarrow>
                                st5\<lparr>loadingMessage := ''Subtitles generated successfully!'',
                                    progress := 100\<rparr>))))"

definition timeout_fired :: "App \<Rightarrow> App" where
  "timeout_fired st = st\<lparr>isLoading := False, loadingMessage := [], progress := 0\<rparr>"

text \<open>
  The download button is rendered under \<open>(isLoading || srtContent)\<close>, \<open>srtContent\<close> and
  \<open>!isLoading\<close>.
\<close>

definition download_rendered :: "App \<Rightarrow> bool" where
  "download_rendered st \<longleftrightarrow>
     (isLoading st \<or> srtContent st \<noteq> []) \<and> srtContent st \<noteq> [] \<and> \<not> isLoading st"

primrec lastIndexOf :: "jsstring \<Rightarrow> jschar \<Rightarrow> int" where
  "lastIndexOf [] c = -1"
| "lastIndexOf (x # xs) c =
     (let i = lastIndexOf xs c in if i \<noteq> -1 then i + 1 else if x = c then 0 else -1)"

text \<open>
  \<open>name.replace(/\.[^/.]+$/, '')\<close>: only the last dot (0x2E) can start a match, and it
  does when what follows it is not empty and has no slash (0x2F).
\<close>

definition replace_extension :: "jsstring \<Rightarrow> jsstring" where
  "replace_extension s =
     (let i = lastIndexOf s 0x2E;
          ext = slice_from s (i + 1)
      in if i \<noteq> - 1 \<and> ext \<noteq> [] \<and> 0x2F \<notin> set ext then slice s 0 i else s)"

record Download =
  download :: jsstring
  blob :: jsstring

text \<open>\<open>handleDownloadClick\<close>: nothing without content, else the file that is saved.\<close>

definition handleDownloadClick :: "App \<Rightarrow> Download option" where
  "handleDownloadClick st =
     (if srtContent st = [] then None
      else
        (let base = (case audioFile st of None \<Rightarrow> [] | Some f \<Rightarrow> replace_extension (name f))
         in Some \<lparr>download = (if base = [] then js ''subtitles'' else base) @ js ''.srt'',
                  blob = trim (srtContent st)\<rparr>))"

section \<open>Notions of the specification\<close>

text \<open>
  The definitions of this section are not code of the program. They name what the
  specification speaks of, so that the theorems can compare the program with it.
\<close>

text \<open>
  The texts that the loop appends to its buffer for the chunks of a stream, and whether
  the stream ends by throwing.
\<close>

primrec chunks_of :: "stream \<Rightarrow> jsstring list" where
  "chunks_of Done = []"
| "chunks_of (Chunk text rest) = append_text [] text # chunks_of rest"
| "chunks_of Throw = []"

primrec throws :: "stream \<Rightarrow> bool" where
  "throws Done = False"
| "throws (Chunk text rest) = throws rest"
| "throws Throw = True"

text \<open>A stream that yields the chunks of a list and goes on as another stream.\<close>

primrec chunks_then :: "jsstring option list \<Rightarrow> stream \<Rightarrow> stream" where
  "chunks_then [] s = s"
| "chunks_then (c # cs) s = Chunk c (chunks_then cs s)"

text \<open>
  A text split at its newlines, as \<open>text.split('\n')\<close> does: the last element is what
  follows the last newline.
\<close>

fun split_lines :: "jsstring \<Rightarrow> jsstring list" where
  "split_lines [] = [[]]"
| "split_lines (c # cs) =
     (if c = NL then [] # split_lines cs
      else (case split_lines cs of [] \<Rightarrow> [[c]] | l # ls \<Rightarrow> (c # l) # ls))"

text \<open>A callback that records the blocks it is called with, in order.\<close>

definition record_call :: "json \<Rightarrow> json list \<Rightarrow> json list" where
  "record_call block calls = calls @ [block]"

text \<open>
  ``All four fields are present with the correct primitive types'': the value is an
  object whose \<open>id\<close> is a number and whose \<open>startTime\<close>, \<open>endTime\<close> and \<open>text\<close> are
  strings.
\<close>

fun is_number :: "json option \<Rightarrow> bool" where
  "is_number (Some (JNumber x)) = True"
| "is_number _ = False"

fun is_string :: "json option \<Rightarrow> bool" where
  "is_string (Some (JString x)) = True"
| "is_string _ = False"

fun spec_valid_block :: "json \<Rightarrow> bool" where
  "spec_valid_block (JObject members) =
     (is_number (map_of (rev members) (js ''id'')) \<and>
      is_string (map_of (rev members) (js ''startTime'')) \<and>
      is_string (map_of (rev members) (js ''endTime'')) \<and>
      is_string (map_of (rev members) (js ''text'')))"
| "spec_valid_block _ = False"

text \<open>
  The ``parse-validate-dispatch logic'' for the text between two newlines: white space
  around it is trimmed, an empty line is passed over, a line that is the JSON of a valid
  block goes to the callback, any other line is dropped.
\<close>

definition spec_dispatch :: "(json \<Rightarrow> 's \<Rightarrow> 's) \<Rightarrow> jsstring \<Rightarrow> 's \<Rightarrow> 's" where
  "spec_dispatch f l st = (if trim l \<noteq> [] then parse_line f (trim l) st else st)"

text \<open>The valid records among the lines of a stream, in their order.\<close>

definition spec_valid_records :: "jsstring list \<Rightarrow> json list" where
  "spec_valid_records records =
     concat (map (\<lambda>r. if trim r = [] then []
                       else (case JSON_parse (trim r) of
                               Inl e \<Rightarrow> []
                             | Inr v \<Rightarrow> if spec_valid_block v then [v] else [])) records)"

text \<open>The serialization of a block: what \<open>onProgress\<close> appends for it.\<close>

definition spec_block_text :: "json \<Rightarrow> jsstring" where
  "spec_block_text block = (case srtBlock block of Inl e \<Rightarrow> [] | Inr text \<Rightarrow> text)"

text \<open>
  A run of \<open>handleGenerateClick\<close> fails when an await rejects: reading the transcript,
  reading the audio, the request to the model, or the stream of its response.
\<close>

definition spec_run_fails ::
    "js_error + jsstring \<Rightarrow> js_error + jsstring \<times> jsstring \<Rightarrow>
     (jsstring \<Rightarrow> jsstring \<times> jsstring \<Rightarrow> js_error + stream) \<Rightarrow> bool" where
  "spec_run_fails fileToText fileToBase64 ai =
     (case fileToText of
        Inl e \<Rightarrow> True
      | Inr transcript \<Rightarrow>
          (case fileToBase64 of
             Inl e \<Rightarrow> True
           | Inr audio \<Rightarrow> (case ai transcript audio of Inl e \<Rightarrow> True | Inr s \<Rightarrow> throws s)))"

text \<open>
  The text a run assembles: the serializations of the valid records among the lines
  received, without the unfinished last line when the stream throws.
\<close>

definition spec_run_text ::
    "js_error + jsstring \<Rightarrow> js_error + jsstring \<times> jsstring \<Rightarrow>
     (jsstring \<Rightarrow> jsstring \<times> jsstring \<Rightarrow> js_error + stream) \<Rightarrow> jsstring" where
  "spec_run_text fileToText fileToBase64 ai =
     (case fileToText of
        Inl e \<Rightarrow> []
      | Inr transcript \<Rightarrow>
          (case fileToBase64 of
             Inl e \<Rightarrow> []
           | Inr audio \<Rightarrow>
               (case ai transcript audio of
                  Inl e \<Rightarrow> []
                | Inr s \<Rightarrow>
                    concat (map spec_block_text (spec_valid_records
                      (if throws s then butlast (split_lines (concat (chunks_of s)))
                       else split_lines (concat (chunks_of s))))))))"

section \<open>The bound of the parser's recursion\<close>

text \<open>
  A parser that succeeds leaves no more text than it was given, and with a bound above
  twice the length of its text no parser stops for lack of it: \<open>JSON_parse\<close> fails on
  a syntax error only.
\<close>

lemma length_skip_ws: "length (skip_ws s) \<le> length s"
  by (simp add: skip_ws_def length_dropWhile_le)

lemma skip_ws_Cons: "skip_ws s = d # r \<Longrightarrow> length r < length s"
  using length_skip_ws [of s] by simp

lemma parse_chars_length: "parse_chars cs = Some (str, r) \<Longrightarrow> length r < length cs"
proof (induction cs arbitrary: str r rule: length_induct)
  case (1 cs)
  have ih: "length ys < length cs \<Longrightarrow> parse_chars ys = Some (str', r') \<Longrightarrow>
      length r' < length cs" for ys str' r'
    using 1(1) by force
  show ?case
  proof (cases cs)
    case Nil
    then show ?thesis using 1(2) by simp
  next
    case (Cons c cs')
    show ?thesis
      using 1(2) unfolding Cons parse_chars.simps
      by (auto split: if_splits option.splits list.splits prod.splits
          dest!: ih [unfolded Cons, rotated])
  qed
qed

lemma le_tl: "length a \<le> length b \<Longrightarrow> length (tl a) \<le> length b"
  by simp

lemma le_dropWhile: "length a \<le> length b \<Longrightarrow> length (dropWhile P a) \<le> length b"
  using length_dropWhile_le [of P a] by simp

lemma if_chain:
  "(if A then None else if B then None else if C then None else Some (a, t)) = Some (x, r) \<Longrightarrow>
   r = t"
  by (auto split: if_splits)

lemma parse_number_length:
  assumes "parse_number s = Some (x, r)"
  shows "length r \<le> length s"
proof -
  define s1 where "s1 = (if (case s of c # _ \<Rightarrow> c = 0x2D | [] \<Rightarrow> False) then tl s else s)"
  define s2 where "s2 = dropWhile is_digit s1"
  define hf where "hf = (case s2 of c # _ \<Rightarrow> c = 0x2E | [] \<Rightarrow> False)"
  define s3 where "s3 = (if hf then dropWhile is_digit (tl s2) else s2)"
  define he where "he = (case s3 of c # _ \<Rightarrow> c = 0x65 \<or> c = 0x45 | [] \<Rightarrow> False)"
  define s4 where "s4 = (if he then tl s3 else s3)"
  define s5 where "s5 =
      (if (case s4 of c # _ \<Rightarrow> he \<and> c = 0x2D | [] \<Rightarrow> False) \<or>
          (case s4 of c # _ \<Rightarrow> he \<and> c = 0x2B | [] \<Rightarrow> False)
       then tl s4 else s4)"
  define s6 where "s6 = (if he then dropWhile is_digit s5 else s5)"
  have "length s1 \<le> length s"
    by (simp add: s1_def)
  moreover have "length s2 \<le> length s1"
    by (simp add: s2_def length_dropWhile_le)
  moreover have "length s3 \<le> length s2"
    using length_dropWhile_le [of is_digit "tl s2"] by (auto simp: s3_def)
  moreover have "length s4 \<le> length s3"
    by (simp add: s4_def)
  moreover have "length s5 \<le> length s4"
    by (simp add: s5_def)
  moreover have "length s6 \<le> length s5"
    by (simp add: s6_def length_dropWhile_le)
  ultimately have len: "length s6 \<le> length s"
    by linarith
  have "r = s6"
    unfolding s6_def s5_def s4_def he_def s3_def hf_def s2_def s1_def
    using assms [unfolded parse_number_def Let_def, THEN if_chain] .
  then show ?thesis
    using len by simp
qed

lemma le_skip_ws: "length a \<le> length (skip_ws b) \<Longrightarrow> length a \<le> length b"
  using length_skip_ws [of b] by simp

lemma parse_elements_step:
  assumes v: "\<And>s' v' r'. parse_value n s' = Ok v' r' \<Longrightarrow> length r' \<le> length s'"
    and e: "\<And>s' es' v' r'. parse_elements n s' es' = Ok v' r' \<Longrightarrow> length r' \<le> length s'"
    and p: "parse_elements (Suc n) s es = Ok v r"
  shows "length r \<le> length s"
proof -
  obtain v1 r1 where a: "parse_value n s = Ok v1 r1"
    using p by (auto split: parsed.splits)
  obtain d r2 where b: "skip_ws r1 = d # r2"
    using p a by (auto split: list.splits)
  have c: "(d = 0x2C \<and> parse_elements n (skip_ws r2) (es @ [v1]) = Ok v r) \<or> r = r2"
    using p a b by (auto split: if_splits)
  have "length r1 \<le> length s"
    using a by (rule v)
  moreover have "length r2 < length r1"
    using b by (rule skip_ws_Cons)
  moreover have "length r \<le> length r2"
    using c e [of "skip_ws r2" "es @ [v1]" v r] le_skip_ws [of r r2] by auto
  ultimately show ?thesis
    by simp
qed

lemma parse_members_step:
  assumes v: "\<And>s' v' r'. parse_value n s' = Ok v' r' \<Longrightarrow> length r' \<le> length s'"
    and m: "\<And>s' ms' v' r'. parse_members n s' ms' = Ok v' r' \<Longrightarrow> length r' \<le> length s'"
    and p: "parse_members (Suc n) s ms = Ok v r"
  shows "length r \<le> length s"
proof -
  obtain cs where s: "s = 0x22 # cs"
    using p by (auto split: list.splits if_splits)
  obtain k r1 where a: "parse_chars cs = Some (k, r1)"
    using p s by (auto split: option.splits)
  obtain r2 where b: "skip_ws r1 = 0x3A # r2"
    using p s a by (auto split: list.splits if_splits)
  obtain v1 r3 where c: "parse_value n (skip_ws r2) = Ok v1 r3"
    using p s a b by (auto split: parsed.splits)
  obtain d t where d: "skip_ws r3 = d # t"
    using p s a b c by (auto split: list.splits)
  have e: "(d = 0x2C \<and> parse_members n (skip_ws t) (ms @ [(k, v1)]) = Ok v r) \<or> r = t"
    using p s a b c d by (auto split: if_splits)
  have "length r1 < length cs"
    using a by (rule parse_chars_length)
  moreover have "length r2 < length r1"
    using b by (rule skip_ws_Cons)
  moreover have "length r3 \<le> length r2"
    using v [OF c] by (rule le_skip_ws)
  moreover have "length t < length r3"
    using d by (rule skip_ws_Cons)
  moreover have "length r \<le> length t"
    using e m [of "skip_ws t" "ms @ [(k, v1)]" v r] le_skip_ws [of r t] by auto
  ultimately show ?thesis
    by (simp add: s)
qed

lemma parse_value_step:
  assumes e: "\<And>s' es' v' r'. parse_elements n s' es' = Ok v' r' \<Longrightarrow> length r' \<le> length s'"
    and m: "\<And>s' ms' v' r'. parse_members n s' ms' = Ok v' r' \<Longrightarrow> length r' \<le> length s'"
    and p: "parse_value (Suc n) s = Ok v r"
  shows "length r \<le> length s"
  using p unfolding parse_value.simps
  by (auto split: list.splits if_splits option.splits
      dest!: e m skip_ws_Cons parse_chars_length parse_number_length)

lemma parse_length:
  "(parse_value n s = Ok v r \<longrightarrow> length r \<le> length s) \<and>
   (parse_elements n s es = Ok v r \<longrightarrow> length r \<le> length s) \<and>
   (parse_members n s ms = Ok v r \<longrightarrow> length r \<le> length s)"
proof (induction n arbitrary: s es ms v r)
  case 0
  show ?case by simp
next
  case (Suc n)
  have v: "parse_value n s' = Ok v' r' \<Longrightarrow> length r' \<le> length s'"
    and e: "parse_elements n s' es' = Ok v' r' \<Longrightarrow> length r' \<le> length s'"
    and m: "parse_members n s' ms' = Ok v' r' \<Longrightarrow> length r' \<le> length s'"
    for s' es' ms' v' r'
    using Suc [of s' v' r' es' ms'] by blast+
  show ?case
    using parse_value_step [of n s v r] parse_elements_step [of n s es v r]
      parse_members_step [of n s ms v r] v e m
    by blast
qed

lemma parse_value_length: "parse_value n s = Ok v r \<Longrightarrow> length r \<le> length s"
  using parse_length [of n s v r] by blast

lemma fuel_value_step:
  assumes e: "\<And>s' es'. 2 * length s' + 2 \<le> n \<Longrightarrow> parse_elements n s' es' \<noteq> OutOfFuel"
    and m: "\<And>s' ms'. 2 * length s' + 2 \<le> n \<Longrightarrow> parse_members n s' ms' \<noteq> OutOfFuel"
    and f: "2 * length s + 1 \<le> Suc n"
  shows "parse_value (Suc n) s \<noteq> OutOfFuel"
proof (cases s)
  case Nil
  then show ?thesis by simp
next
  case (Cons c cs)
  have b: "skip_ws cs = d # r \<Longrightarrow> 2 * length (d # r) + 2 \<le> n" for d r
    using length_skip_ws [of cs] f Cons by simp
  show ?thesis
    unfolding Cons parse_value.simps
    using e [OF b] m [OF b]
    by (auto split: list.splits option.splits)
qed

lemma fuel_elements_step:
  assumes v: "\<And>s'. 2 * length s' + 1 \<le> n \<Longrightarrow> parse_value n s' \<noteq> OutOfFuel"
    and e: "\<And>s' es'. 2 * length s' + 2 \<le> n \<Longrightarrow> parse_elements n s' es' \<noteq> OutOfFuel"
    and f: "2 * length s + 2 \<le> Suc n"
  shows "parse_elements (Suc n) s es \<noteq> OutOfFuel"
proof (cases "parse_value n s")
  case OutOfFuel
  then show ?thesis using v [of s] f by simp
next
  case Unexpected
  then show ?thesis by simp
next
  case (Ok v1 r1)
  show ?thesis
  proof (cases "skip_ws r1")
    case Nil
    then show ?thesis using Ok by simp
  next
    case (Cons d r2)
    have "length r1 \<le> length s"
      using Ok by (rule parse_value_length)
    moreover have "length r2 < length r1"
      using Cons by (rule skip_ws_Cons)
    ultimately have "2 * length (skip_ws r2) + 2 \<le> n"
      using length_skip_ws [of r2] f by simp
    then have "parse_elements n (skip_ws r2) (es @ [v1]) \<noteq> OutOfFuel"
      by (rule e)
    then show ?thesis
      using Ok Cons by simp
  qed
qed

lemma fuel_members_step:
  assumes v: "\<And>s'. 2 * length s' + 1 \<le> n \<Longrightarrow> parse_value n s' \<noteq> OutOfFuel"
    and m: "\<And>s' ms'. 2 * length s' + 2 \<le> n \<Longrightarrow> parse_members n s' ms' \<noteq> OutOfFuel"
    and f: "2 * length s + 2 \<le> Suc n"
  shows "parse_members (Suc n) s ms \<noteq> OutOfFuel"
proof (cases s)
  case Nil
  then show ?thesis by simp
next
  case s: (Cons q cs)
  show ?thesis
  proof (cases "parse_chars cs")
    case None
    then show ?thesis by (simp add: s)
  next
    case (Some kr)
    obtain k r1 where a: "parse_chars cs = Some (k, r1)"
      using Some by (cases kr) simp
    have l1: "length r1 < length cs"
      using a by (rule parse_chars_length)
    show ?thesis
    proof (cases "skip_ws r1")
      case Nil
      then show ?thesis by (simp add: s a)
    next
      case b: (Cons col r2)
      have l2: "length r2 < length r1"
        using b by (rule skip_ws_Cons)
      have "2 * length (skip_ws r2) + 1 \<le> n"
        using length_skip_ws [of r2] l1 l2 f s by simp
      then have nv: "parse_value n (skip_ws r2) \<noteq> OutOfFuel"
        by (rule v)
      show ?thesis
      proof (cases "parse_value n (skip_ws r2)")
        case OutOfFuel
        then show ?thesis using nv by simp
      next
        case Unexpected
        then show ?thesis by (simp add: s a b)
      next
        case c: (Ok v1 r3)
        have l3: "length r3 \<le> length r2"
          using parse_value_length [OF c] by (rule le_skip_ws)
        show ?thesis
        proof (cases "skip_ws r3")
          case Nil
          then show ?thesis by (simp add: s a b c)
        next
          case d: (Cons d t)
          have "length t < length r3"
            using d by (rule skip_ws_Cons)
          then have "2 * length (skip_ws t) + 2 \<le> n"
            using length_skip_ws [of t] l1 l2 l3 f s by simp
          then have "parse_members n (skip_ws t) (ms @ [(k, v1)]) \<noteq> OutOfFuel"
            by (rule m)
          then show ?thesis
            by (simp add: s a b c d)
        qed
      qed
    qed
  qed
qed

lemma parse_fuel:
  "(2 * length s + 1 \<le> n \<longrightarrow> parse_value n s \<noteq> OutOfFuel) \<and>
   (2 * length s + 2 \<le> n \<longrightarrow> parse_elements n s es \<noteq> OutOfFuel) \<and>
   (2 * length s + 2 \<le> n \<longrightarrow> parse_members n s ms \<noteq> OutOfFuel)"
proof (induction n arbitrary: s es ms)
  case 0
  show ?case by simp
next
  case (Suc n)
  have v: "2 * length s' + 1 \<le> n \<Longrightarrow> parse_value n s' \<noteq> OutOfFuel"
    and e: "2 * length s' + 2 \<le> n \<Longrightarrow> parse_elements n s' es' \<noteq> OutOfFuel"
    and m: "2 * length s' + 2 \<le> n \<Longrightarrow> parse_members n s' ms' \<noteq> OutOfFuel"
    for s' es' ms'
    using Suc [of s' es' ms'] by blast+
  show ?case
    using fuel_value_step [of n s] fuel_elements_step [of n s es] fuel_members_step [of n s ms]
      v e m
    by blast
qed

lemma JSON_parse_fuel: "parse_value (Suc (2 * length s)) (skip_ws s) \<noteq> OutOfFuel"
proof -
  have "2 * length (skip_ws s) + 1 \<le> Suc (2 * length s)"
    using length_skip_ws [of s] by simp
  then show ?thesis
    using parse_fuel [of "skip_ws s" "Suc (2 * length s)"] by blast
qed

section \<open>The loop over the lines of the buffer\<close>

lemma indexOf_none: "c \<notin> set s \<Longrightarrow> indexOf s c = - 1"
  by (induction s) (auto simp: Let_def)

lemma indexOf_first: "c \<notin> set l \<Longrightarrow> indexOf (l @ c # r) c = int (length l)"
  by (induction l) (auto simp: Let_def)

lemma slice_line: "slice (l @ c # r) 0 (int (length l)) = l"
  by (simp add: slice_def Let_def)

lemma slice_from_rest: "slice_from (l @ c # r) (int (length l) + 1) = r"
  by (simp add: slice_from_def slice_def Let_def nat_add_distrib)

lemma extract_lines_no_newline: "NL \<notin> set b \<Longrightarrow> extract_lines f b st = (b, st)"
  by (subst extract_lines.simps) (simp add: indexOf_none)

lemma extract_lines_line:
  "NL \<notin> set l \<Longrightarrow> extract_lines f (l @ NL # r) st = extract_lines f r (spec_dispatch f l st)"
  by (subst extract_lines.simps)
     (simp add: indexOf_first slice_line slice_from_rest spec_dispatch_def Let_def)

lemma extract_lines_append:
  "extract_lines f (b @ c) st =
     (case extract_lines f b st of (b', st') \<Rightarrow> extract_lines f (b' @ c) st')"
proof (induction b arbitrary: st rule: length_induct)
  case (1 b)
  show ?case
  proof (cases "NL \<in> set b")
    case False
    then show ?thesis by (simp add: extract_lines_no_newline)
  next
    case True
    then obtain l r where b: "b = l @ NL # r" and l: "NL \<notin> set l"
      by (auto dest: split_list_first)
    have "length r < length b" using b by simp
    then have "extract_lines f (r @ c) st' =
        (case extract_lines f r st' of (b', st'') \<Rightarrow> extract_lines f (b' @ c) st'')" for st'
      using 1 by blast
    then show ?thesis
      using l by (simp add: b extract_lines_line)
  qed
qed

lemma extract_lines_rest: "NL \<notin> set (fst (extract_lines f b st))"
proof (induction b arbitrary: st rule: length_induct)
  case (1 b)
  show ?case
  proof (cases "NL \<in> set b")
    case False
    then show ?thesis by (simp add: extract_lines_no_newline)
  next
    case True
    then obtain l r where b: "b = l @ NL # r" and l: "NL \<notin> set l"
      by (auto dest: split_list_first)
    have "length r < length b" using b by simp
    then have "NL \<notin> set (fst (extract_lines f r st'))" for st'
      using 1 by blast
    then show ?thesis
      using l by (simp add: b extract_lines_line)
  qed
qed

section \<open>Validation of a line\<close>

lemma typeof_number: "typeof v = ''number'' \<longleftrightarrow> is_number v"
  by (cases v rule: typeof.cases) simp_all

lemma typeof_string: "typeof v = ''string'' \<longleftrightarrow> is_string v"
  by (cases v rule: typeof.cases) simp_all

lemma basic_validation_object:
  "basic_validation (JObject members) =
     Inr (typeof (map_of (rev members) (js ''id'')) = ''number'' \<and>
          typeof (map_of (rev members) (js ''startTime'')) = ''string'' \<and>
          typeof (map_of (rev members) (js ''endTime'')) = ''string'' \<and>
          typeof (map_of (rev members) (js ''text'')) = ''string'')"
  by (simp add: basic_validation_def)

lemma basic_validation_null: "basic_validation JNull = Inl TypeError"
  by (simp add: basic_validation_def)

lemma basic_validation_other:
  "basic_validation (JBool b) = Inr False"
  "basic_validation (JNumber x) = Inr False"
  "basic_validation (JString s) = Inr False"
  "basic_validation (JArray xs) = Inr False"
  by (simp_all add: basic_validation_def)

lemma basic_validation_valid: "basic_validation v = Inr True \<longleftrightarrow> spec_valid_block v"
  by (cases v)
     (simp_all add: basic_validation_object basic_validation_null basic_validation_other
        typeof_number typeof_string)

lemma parse_line_cases:
  "parse_line f line st =
     (case JSON_parse line of
        Inl e \<Rightarrow> st
      | Inr v \<Rightarrow> if spec_valid_block v then f v st else st)"
proof (cases "JSON_parse line")
  case (Inl e)
  then show ?thesis by (simp add: parse_line_def)
next
  case (Inr v)
  show ?thesis
  proof (cases "basic_validation v")
    case (Inl e)
    then have "\<not> spec_valid_block v"
      using basic_validation_valid [of v] by simp
    then show ?thesis using Inl Inr by (simp add: parse_line_def)
  next
    case (Inr ok)
    then have "ok = spec_valid_block v"
      using basic_validation_valid [of v] by auto
    then show ?thesis using Inr \<open>JSON_parse line = Inr v\<close> by (simp add: parse_line_def)
  qed
qed

section \<open>The chunked parser against the text split at its newlines\<close>

lemma split_lines_not_Nil: "split_lines s \<noteq> []"
  by (induction s) (auto split: list.splits)

lemma split_lines_no_newline: "NL \<notin> set l \<Longrightarrow> split_lines l = [l]"
  by (induction l) auto

lemma split_lines_line: "NL \<notin> set l \<Longrightarrow> split_lines (l @ NL # r) = l # split_lines r"
  by (induction l) auto

lemma extract_lines_split:
  "extract_lines f b st =
     (last (split_lines b), fold (spec_dispatch f) (butlast (split_lines b)) st)"
proof (induction b arbitrary: st rule: length_induct)
  case (1 b)
  show ?case
  proof (cases "NL \<in> set b")
    case False
    then show ?thesis
      by (simp add: extract_lines_no_newline split_lines_no_newline)
  next
    case True
    then obtain l r where b: "b = l @ NL # r" and l: "NL \<notin> set l"
      by (auto dest: split_list_first)
    have "length r < length b" using b by simp
    then have "extract_lines f r st' =
        (last (split_lines r), fold (spec_dispatch f) (butlast (split_lines r)) st')" for st'
      using 1 by blast
    then show ?thesis
      using l by (simp add: b extract_lines_line split_lines_line split_lines_not_Nil)
  qed
qed

lemma for_await_split:
  "NL \<notin> set b \<Longrightarrow>
   for_await f s b st =
     (if throws s then Inl Rejected else Inr (last (split_lines (b @ concat (chunks_of s)))),
      fold (spec_dispatch f) (butlast (split_lines (b @ concat (chunks_of s)))) st)"
proof (induction s arbitrary: b st)
  case Done
  then show ?case by (simp add: split_lines_no_newline)
next
  case (Chunk x rest)
  define c where "c = append_text [] x"
  have ap: "append_text b x = b @ c"
    by (simp add: c_def append_text_def)
  obtain b' st' where e: "extract_lines f (b @ c) st = (b', st')"
    by (cases "extract_lines f (b @ c) st")
  have nl: "NL \<notin> set b'"
    using extract_lines_rest [of f "b @ c" st] e by simp
  have "extract_lines f ((b @ c) @ concat (chunks_of rest)) st =
      extract_lines f (b' @ concat (chunks_of rest)) st'"
    using e extract_lines_append [of f "b @ c" "concat (chunks_of rest)" st] by simp
  then have "last (split_lines (b' @ concat (chunks_of rest))) =
        last (split_lines (b @ c @ concat (chunks_of rest)))"
    and "fold (spec_dispatch f) (butlast (split_lines (b' @ concat (chunks_of rest)))) st' =
        fold (spec_dispatch f) (butlast (split_lines (b @ c @ concat (chunks_of rest)))) st"
    by (simp_all add: extract_lines_split)
  then show ?case
    using e Chunk.IH [OF nl, of st'] by (simp add: ap c_def)
next
  case Throw
  then show ?case by (simp add: split_lines_no_newline)
qed

lemma spec_dispatch_records:
  "spec_dispatch f l st = fold f (spec_valid_records [l]) st"
  by (simp add: spec_dispatch_def spec_valid_records_def parse_line_cases split: sum.splits)

lemma spec_valid_records_append:
  "spec_valid_records (xs @ ys) = spec_valid_records xs @ spec_valid_records ys"
  by (simp add: spec_valid_records_def)

lemma spec_valid_records_Cons:
  "spec_valid_records (x # xs) = spec_valid_records [x] @ spec_valid_records xs"
  by (simp add: spec_valid_records_def)

lemma fold_spec_dispatch:
  "fold (spec_dispatch f) ls st = fold f (spec_valid_records ls) st"
proof (induction ls arbitrary: st)
  case Nil
  then show ?case by (simp add: spec_valid_records_def)
next
  case (Cons l ls)
  then show ?case
    by (simp add: spec_valid_records_Cons [of l ls] spec_dispatch_records)
qed

lemma generateSubtitles_split:
  assumes "ai transcript audio = Inr s"
  shows "generateSubtitles ai transcript audio f st =
     (if throws s then
        (Inl (Error ''Failed to communicate with the AI model.''),
         fold f (spec_valid_records (butlast (split_lines (concat (chunks_of s))))) st)
      else
        (Inr (), fold f (spec_valid_records (split_lines (concat (chunks_of s)))) st))"
proof -
  let ?ls = "split_lines (concat (chunks_of s))"
  have fa: "for_await f s [] st =
      (if throws s then Inl Rejected else Inr (last ?ls),
       fold f (spec_valid_records (butlast ?ls)) st)"
    using for_await_split [of "[]" f s st] by (simp add: fold_spec_dispatch)
  have "?ls = butlast ?ls @ [last ?ls]"
    by (simp add: split_lines_not_Nil)
  then have "spec_valid_records ?ls =
      spec_valid_records (butlast ?ls) @ spec_valid_records [last ?ls]"
    using spec_valid_records_append [of "butlast ?ls" "[last ?ls]"] by simp
  moreover have "(if trim (last ?ls) \<noteq> [] then parse_line f (trim (last ?ls)) st' else st') =
      fold f (spec_valid_records [last ?ls]) st'" for st'
    using spec_dispatch_records [of f "last ?ls" st'] by (simp add: spec_dispatch_def)
  ultimately show ?thesis
    using assms fa by (simp add: generateSubtitles_def)
qed

lemma generateSubtitles_rejected:
  "ai transcript audio = Inl e \<Longrightarrow>
   generateSubtitles ai transcript audio f st =
     (Inl (Error ''Failed to communicate with the AI model.''), st)"
  by (simp add: generateSubtitles_def)

lemma JSON_parse_empty: "JSON_parse [] = Inl SyntaxError"
  by (simp add: JSON_parse_def skip_ws_def)

lemma spec_valid_records_blank: "trim l = [] \<Longrightarrow> spec_valid_records [l] = []"
  by (simp add: spec_valid_records_def)

lemma trim_empty: "trim [] = []"
  by (simp add: trim_def trimEnd_def trimStart_def)

lemma spec_valid_records_valid:
  "JSON_parse (trim l) = Inr block \<Longrightarrow> spec_valid_block block \<Longrightarrow>
   spec_valid_records [l] = [block]"
  by (auto simp: spec_valid_records_def JSON_parse_empty)

lemma split_lines_records:
  "\<forall>r \<in> set records. NL \<notin> set r \<Longrightarrow>
   split_lines (concat (map (\<lambda>r. r @ [NL]) records)) = records @ [[]]"
  by (induction records) (simp_all add: split_lines_line)

lemma split_lines_append:
  "split_lines (a @ b) =
     butlast (split_lines a) @ (last (split_lines a) @ hd (split_lines b)) # tl (split_lines b)"
proof (induction a)
  case Nil
  then show ?case by (simp add: split_lines_not_Nil)
next
  case (Cons c a)
  then show ?case
    by (cases "split_lines a") (auto simp: split_lines_not_Nil split: list.splits)
qed

lemma split_lines_terminated:
  assumes "body \<noteq> []" and "last body = NL"
  shows "last (split_lines body) = []"
proof -
  have "body = butlast body @ [NL]"
    using assms by (metis append_butlast_last_id)
  then have "split_lines body = split_lines (butlast body @ [NL])"
    by simp
  then show ?thesis
    by (simp add: split_lines_append [of "butlast body" "[NL]"])
qed

lemma split_lines_final:
  assumes "body = [] \<or> last body = NL" and "NL \<notin> set final"
  shows "split_lines (body @ final) = butlast (split_lines body) @ [final]"
    and "spec_valid_records (split_lines body) = spec_valid_records (butlast (split_lines body))"
proof -
  have l: "last (split_lines body) = []"
    using assms(1) split_lines_terminated [of body] by (cases "body = []") auto
  show "split_lines (body @ final) = butlast (split_lines body) @ [final]"
    using l assms(2) by (simp add: split_lines_append split_lines_no_newline)
  have "split_lines body = butlast (split_lines body) @ [[]]"
    using l append_butlast_last_id [OF split_lines_not_Nil [of body]] by simp
  then have "spec_valid_records (split_lines body) =
      spec_valid_records (butlast (split_lines body)) @ spec_valid_records [[]]"
    using spec_valid_records_append [of "butlast (split_lines body)" "[[]]"] by simp
  then show "spec_valid_records (split_lines body) =
      spec_valid_records (butlast (split_lines body))"
    by (simp add: spec_valid_records_blank trim_empty)
qed

text \<open>
  The chunks before a point of the stream: the loop has made the calls of their lines, and
  when their text ends with a newline it goes on with an empty buffer.
\<close>

lemma append_text_Some [simp]: "append_text buffer (Some t) = buffer @ t"
  by (simp add: append_text_def)

lemma for_await_chunks_then:
  "NL \<notin> set b \<Longrightarrow>
   for_await f (chunks_then cs s) b st =
     (case extract_lines f (b @ concat (map (append_text []) cs)) st of
        (b', st') \<Rightarrow> for_await f s b' st')"
proof (induction cs arbitrary: b st)
  case Nil
  then show ?case by (simp add: extract_lines_no_newline)
next
  case (Cons x cs)
  define c where "c = append_text [] x"
  have ap: "append_text b x = b @ c"
    by (simp add: c_def append_text_def)
  obtain b1 st1 where e: "extract_lines f (b @ c) st = (b1, st1)"
    by (cases "extract_lines f (b @ c) st")
  have nl: "NL \<notin> set b1"
    using extract_lines_rest [of f "b @ c" st] e by simp
  have "extract_lines f (b @ c @ concat (map (append_text []) cs)) st =
      extract_lines f (b1 @ concat (map (append_text []) cs)) st1"
    using e extract_lines_append [of f "b @ c" "concat (map (append_text []) cs)" st] by simp
  then show ?case
    using e Cons.IH [OF nl, of st1] by (simp add: ap c_def)
qed

lemma for_await_after_lines:
  assumes "body = concat (map (append_text []) before)" and "body = [] \<or> last body = NL"
  shows "for_await f (chunks_then before s) [] st =
           for_await f s [] (fold f (spec_valid_records (split_lines body)) st)"
proof -
  have l: "last (split_lines body) = []"
    using assms(2) split_lines_terminated [of body] by (cases "body = []") auto
  have "spec_valid_records (split_lines body) = spec_valid_records (butlast (split_lines body))"
    using split_lines_final(2) [OF assms(2), of "[]"] by simp
  then have "extract_lines f body st =
      ([], fold f (spec_valid_records (split_lines body)) st)"
    by (simp add: extract_lines_split l fold_spec_dispatch)
  then show ?thesis
    using for_await_chunks_then [of "[]" f before s st] assms(1) by simp
qed

section \<open>The claims about the parser\<close>

text \<open>
  C1. When every record arrives as one chunk that ends with a newline (a record is one
  line: it has no newline inside), the calls of the callback are the valid records of the
  stream, in the order of arrival, each once: the state after the run is the fold of the
  callback over them, for every callback and every state.
\<close>

theorem records_one_per_chunk:
  assumes "ai transcript audio = Inr s" and "\<not> throws s"
    and "chunks_of s = map (\<lambda>r. r @ [NL]) records"
    and "\<forall>r \<in> set records. NL \<notin> set r"
  shows "generateSubtitles ai transcript audio f st =
           (Inr (), fold f (spec_valid_records records) st)"
proof -
  have "split_lines (concat (chunks_of s)) = records @ [[]]"
    using assms(3,4) by (simp add: split_lines_records)
  moreover have "spec_valid_records (records @ [[]]) = spec_valid_records records"
    by (simp add: spec_valid_records_append spec_valid_records_blank trim_empty)
  ultimately show ?thesis
    using assms(1,2) by (simp add: generateSubtitles_split)
qed

theorem records_one_per_chunk_witness:
  \<open>generateSubtitles
     (\<lambda>transcript audio. Inr
        (Chunk (Some (js ''{"id":1,"startTime":"00:00:00,000","endTime":"00:00:02,500","text":"Hello"}'' @ [NL]))
        (Chunk (Some (js ''NOT JSON'' @ [NL]))
        (Chunk (Some (js ''{"id":2,"startTime":"00:00:02,500","endTime":"00:00:04,000","text":"World"}'' @ [NL]))
         Done))))
     (js ''transcript'') (js ''audio/mpeg'', js ''AAAA'') record_call [] =
   (Inr (),
    [JObject [(js ''id'', JNumber (Finite False 1 0)), (js ''startTime'', JString (js ''00:00:00,000'')),
              (js ''endTime'', JString (js ''00:00:02,500'')), (js ''text'', JString (js ''Hello''))],
     JObject [(js ''id'', JNumber (Finite False 1 1)), (js ''startTime'', JString (js ''00:00:02,500'')),
              (js ''endTime'', JString (js ''00:00:04,000'')), (js ''text'', JString (js ''World''))]])\<close>
proof -
  let ?r1 = \<open>js ''{"id":1,"startTime":"00:00:00,000","endTime":"00:00:02,500","text":"Hello"}''\<close>
  let ?r2 = \<open>js ''NOT JSON''\<close>
  let ?r3 = \<open>js ''{"id":2,"startTime":"00:00:02,500","endTime":"00:00:04,000","text":"World"}''\<close>
  let ?s = "Chunk (Some (?r1 @ [NL])) (Chunk (Some (?r2 @ [NL])) (Chunk (Some (?r3 @ [NL])) Done))"
  have v: "spec_valid_records [?r1, ?r2, ?r3] =
    [JObject [(js ''id'', JNumber (Finite False 1 0)), (js ''startTime'', JString (js ''00:00:00,000'')),
              (js ''endTime'', JString (js ''00:00:02,500'')), (js ''text'', JString (js ''Hello''))],
     JObject [(js ''id'', JNumber (Finite False 1 1)), (js ''startTime'', JString (js ''00:00:02,500'')),
              (js ''endTime'', JString (js ''00:00:04,000'')), (js ''text'', JString (js ''World''))]]"
    by code_simp
  have n: "\<forall>r \<in> set [?r1, ?r2, ?r3]. NL \<notin> set r"
    by code_simp
  have c: "chunks_of ?s = map (\<lambda>r. r @ [NL]) [?r1, ?r2, ?r3]" and t: "\<not> throws ?s"
    by simp_all
  show ?thesis
    using records_one_per_chunk [of "\<lambda>transcript audio. Inr ?s" "js ''transcript''"
        "(js ''audio/mpeg'', js ''AAAA'')" ?s "[?r1, ?r2, ?r3]" record_call "[]", OF refl t c n]
    by (simp only: v) (simp add: record_call_def)
qed

text \<open>
  C2. A valid record (one line) followed by its newline is split in two chunks at any
  position \<open>k\<close> inside it. When the loop has consumed the first chunk it has called
  nothing and holds the chunk in its buffer; when it has consumed the second it has
  called the callback once, with the record's block, and its buffer is empty, whatever
  the stream does next. In a run where chunks of complete lines come before the two and
  any stream \<open>rest\<close> after them, the call for the record comes after the calls of those
  lines, once, and the run goes on as a run on \<open>rest\<close> alone. A record without its
  newline, in two chunks at the end of the stream, is called once as well.
\<close>

theorem record_split_across_two_chunks:
  assumes "k \<le> length record" and "NL \<notin> set record"
    and "JSON_parse (trim record) = Inr block" and "spec_valid_block block"
  shows "for_await f (Chunk (Some (take k (record @ [NL]))) rest) [] st =
           for_await f rest (take k record) st \<and>
         for_await f (Chunk (Some (take k (record @ [NL])))
             (Chunk (Some (drop k (record @ [NL]))) rest)) [] st =
           for_await f rest [] (f block st) \<and>
         (ai transcript audio =
            Inr (chunks_then before (Chunk (Some (take k (record @ [NL])))
                   (Chunk (Some (drop k (record @ [NL]))) rest))) \<and>
          body = concat (map (append_text []) before) \<and> (body = [] \<or> last body = NL) \<longrightarrow>
            generateSubtitles ai transcript audio f st =
              generateSubtitles (\<lambda>transcript audio. Inr rest) transcript audio f
                (f block (fold f (spec_valid_records (split_lines body)) st))) \<and>
         (ai transcript audio =
            Inr (Chunk (Some (take k record)) (Chunk (Some (drop k record)) Done)) \<longrightarrow>
            generateSubtitles ai transcript audio f st = (Inr (), f block st))"
proof -
  define c1 where "c1 = take k (record @ [NL])"
  define c2 where "c2 = drop k (record @ [NL])"
  have c1: "c1 = take k record"
    using assms(1) by (simp add: c1_def)
  have n1: "NL \<notin> set c1"
    using assms(2) by (auto simp: c1 dest: in_set_takeD)
  have c12: "c1 @ c2 = record @ NL # []"
    unfolding c1_def c2_def by (rule append_take_drop_id)
  have d: "spec_dispatch f record st' = f block st'" for st'
    using spec_valid_records_valid [OF assms(3,4)] by (simp add: spec_dispatch_records)
  have first: "for_await f (Chunk (Some c1) s) [] st' = for_await f s c1 st'" for s st'
    using n1 by (simp add: append_text_def extract_lines_no_newline)
  have "extract_lines f (c1 @ c2) st' = ([], f block st')" for st'
    unfolding c12 using assms(2)
    by (simp add: extract_lines_line extract_lines_no_newline d)
  then have both: "for_await f (Chunk (Some c1) (Chunk (Some c2) s)) [] st' =
      for_await f s [] (f block st')" for s st'
    unfolding first by (simp add: append_text_def)
  have run: "generateSubtitles ai transcript audio f st =
      generateSubtitles (\<lambda>transcript audio. Inr rest) transcript audio f
        (f block (fold f (spec_valid_records (split_lines body)) st))"
    if ai: "ai transcript audio = Inr (chunks_then before (Chunk (Some c1) (Chunk (Some c2) rest)))"
      and b: "body = concat (map (append_text []) before)" "body = [] \<or> last body = NL"
  proof -
    have "for_await f (chunks_then before (Chunk (Some c1) (Chunk (Some c2) rest))) [] st =
        for_await f rest [] (f block (fold f (spec_valid_records (split_lines body)) st))"
      by (simp only: for_await_after_lines [OF b] both)
    then show ?thesis
      using ai by (simp add: generateSubtitles_def)
  qed
  have "spec_valid_records (split_lines record) = [block]"
    using assms(2) spec_valid_records_valid [OF assms(3,4)] by (simp add: split_lines_no_newline)
  then have final: "generateSubtitles ai transcript audio f st = (Inr (), f block st)"
    if "ai transcript audio = Inr (Chunk (Some (take k record)) (Chunk (Some (drop k record)) Done))"
    using that generateSubtitles_split [of ai transcript audio _ f st] by simp
  show ?thesis
    using first [of rest st] both [of rest st] run final
    unfolding c1_def c2_def c1 [unfolded c1_def] by blast
qed

theorem record_split_across_two_chunks_witness:
  \<open>for_await record_call (Chunk (Some (js ''{"id":1,"star'')) Done) [] [] =
     (Inr (js ''{"id":1,"star''), []) \<and>
   for_await record_call
     (Chunk (Some (js ''{"id":1,"star''))
     (Chunk (Some (js ''tTime":"00:00:00,000","endTime":"00:00:02,500","text":"Hello"}'' @ [NL]))
      Done)) [] [] =
     (Inr [],
      [JObject [(js ''id'', JNumber (Finite False 1 0)), (js ''startTime'', JString (js ''00:00:00,000'')),
                (js ''endTime'', JString (js ''00:00:02,500'')), (js ''text'', JString (js ''Hello''))]]) \<and>
   generateSubtitles
     (\<lambda>transcript audio. Inr
        (Chunk (Some (js ''{"id":0,"startTime":"a","endTime":"b","text":"c"}'' @ [NL]))
        (Chunk (Some (js ''{"id":1,"star''))
        (Chunk (Some (js ''tTime":"00:00:00,000","endTime":"00:00:02,500","text":"Hello"}'' @ [NL]))
        (Chunk (Some (js ''{"id":3,"startTime":"d","endTime":"e","text":"f"}'' @ [NL]))
         Done)))))
     (js ''transcript'') (js ''audio/mpeg'', js ''AAAA'') record_call [] =
   (Inr (),
    [JObject [(js ''id'', JNumber (Finite False 0 0)), (js ''startTime'', JString (js ''a'')),
              (js ''endTime'', JString (js ''b'')), (js ''text'', JString (js ''c''))],
     JObject [(js ''id'', JNumber (Finite False 1 0)), (js ''startTime'', JString (js ''00:00:00,000'')),
              (js ''endTime'', JString (js ''00:00:02,500'')), (js ''text'', JString (js ''Hello''))],
     JObject [(js ''id'', JNumber (Finite False 3 0)), (js ''startTime'', JString (js ''d'')),
              (js ''endTime'', JString (js ''e'')), (js ''text'', JString (js ''f''))]])\<close>
proof -
  let ?r = \<open>js ''{"id":1,"startTime":"00:00:00,000","endTime":"00:00:02,500","text":"Hello"}''\<close>
  let ?b = "JObject [(js ''id'', JNumber (Finite False 1 0)), (js ''startTime'', JString (js ''00:00:00,000'')),
              (js ''endTime'', JString (js ''00:00:02,500'')), (js ''text'', JString (js ''Hello''))]"
  let ?first = "JObject [(js ''id'', JNumber (Finite False 0 0)), (js ''startTime'', JString (js ''a'')),
              (js ''endTime'', JString (js ''b'')), (js ''text'', JString (js ''c''))]"
  let ?third = "JObject [(js ''id'', JNumber (Finite False 3 0)), (js ''startTime'', JString (js ''d'')),
              (js ''endTime'', JString (js ''e'')), (js ''text'', JString (js ''f''))]"
  let ?before = \<open>[Some (js ''{"id":0,"startTime":"a","endTime":"b","text":"c"}'' @ [NL])]\<close>
  let ?body = \<open>js ''{"id":0,"startTime":"a","endTime":"b","text":"c"}'' @ [NL]\<close>
  let ?rest = \<open>Chunk (Some (js ''{"id":3,"startTime":"d","endTime":"e","text":"f"}'' @ [NL])) Done\<close>
  let ?ai = "(\<lambda>transcript audio. Inr
        (chunks_then ?before (Chunk (Some (take 13 (?r @ [NL])))
           (Chunk (Some (drop 13 (?r @ [NL]))) ?rest))))
          :: jsstring \<Rightarrow> jsstring \<times> jsstring \<Rightarrow> js_error + stream"
  have p: "JSON_parse (trim ?r) = Inr ?b"
    by code_simp
  have v: "spec_valid_block ?b"
    by code_simp
  have n: "NL \<notin> set ?r"
    by code_simp
  have k: "13 \<le> length ?r"
    by simp
  have b: "?body = concat (map (append_text []) ?before) \<and> (?body = [] \<or> last ?body = NL)"
    by simp
  have s: "spec_valid_records (split_lines ?body) = [?first]"
    by code_simp
  have r: "generateSubtitles (\<lambda>transcript audio. Inr ?rest) (js ''transcript'')
      (js ''audio/mpeg'', js ''AAAA'') record_call [?first, ?b] = (Inr (), [?first, ?b, ?third])"
    by code_simp
  have d: \<open>for_await record_call Done (take 13 ?r) [] = (Inr (js ''{"id":1,"star''), [])\<close>
    by simp
  have e: "for_await record_call Done [] [?b] = (Inr [], [?b])"
    by simp
  note t1 = record_split_across_two_chunks [of 13 ?r ?b record_call Done "[]" ?ai
        "js ''transcript''" "(js ''audio/mpeg'', js ''AAAA'')" ?before ?body, OF k n p v]
  note t2 = record_split_across_two_chunks [of 13 ?r ?b record_call ?rest "[]" ?ai
        "js ''transcript''" "(js ''audio/mpeg'', js ''AAAA'')" ?before ?body, OF k n p v]
  have 1: \<open>for_await record_call (Chunk (Some (take 13 (?r @ [NL]))) Done) [] [] =
      (Inr (js ''{"id":1,"star''), [])\<close>
    using t1 [THEN conjunct1] by (simp only: d)
  have 2: "for_await record_call (Chunk (Some (take 13 (?r @ [NL])))
      (Chunk (Some (drop 13 (?r @ [NL]))) Done)) [] [] = (Inr [], [?b])"
    using t1 [THEN conjunct2, THEN conjunct1] by (simp only: record_call_def append_Nil e)
  have f: "record_call ?b (fold record_call (spec_valid_records (split_lines ?body)) []) =
      [?first, ?b]"
    by (simp only: s) (simp add: record_call_def)
  have 3: "generateSubtitles ?ai (js ''transcript'') (js ''audio/mpeg'', js ''AAAA'') record_call [] =
      (Inr (), [?first, ?b, ?third])"
    using t2 [THEN conjunct2, THEN conjunct2, THEN conjunct1, THEN mp, OF conjI [OF refl b]]
    by (simp only: f r)
  show ?thesis
    using 1 2 3 by simp
qed

text \<open>
  When every chunk has a text, the text of the stream is the concatenation of the chunks,
  and a part \<open>final\<close> that no newline follows goes through the logic of a line once, after
  the calls for the lines before it: no call when it is white space, one call with its
  block when it is a valid record.
\<close>

lemma final_part_dispatched_once:
  assumes "ai transcript audio = Inr s" and "\<not> throws s"
    and "concat (chunks_of s) = body @ final"
    and "body = [] \<or> last body = NL" and "NL \<notin> set final"
  shows "generateSubtitles ai transcript audio f st =
           (Inr (), spec_dispatch f final (fold f (spec_valid_records (split_lines body)) st)) \<and>
         (JSON_parse (trim final) = Inr block \<and> spec_valid_block block \<longrightarrow>
            generateSubtitles ai transcript audio f st =
              (Inr (), f block (fold f (spec_valid_records (split_lines body)) st)))"
proof -
  have "spec_valid_records (split_lines (concat (chunks_of s))) =
      spec_valid_records (split_lines body) @ spec_valid_records [final]"
    using assms(3) split_lines_final [OF assms(4,5)]
    by (simp add: spec_valid_records_append)
  then have g: "generateSubtitles ai transcript audio f st =
      (Inr (), spec_dispatch f final (fold f (spec_valid_records (split_lines body)) st))"
    using assms(1,2) by (simp add: generateSubtitles_split spec_dispatch_records)
  have "spec_dispatch f final st' = f block st'"
    if "JSON_parse (trim final) = Inr block" and "spec_valid_block block" for st'
    using spec_valid_records_valid [OF that] by (simp add: spec_dispatch_records)
  then show ?thesis
    using g by simp
qed

text \<open>
  C3 fails in the code. \<open>buffer += chunk.text\<close> is not guarded: for a chunk without
  text the loop appends \<open>undefined\<close> as a string. The first run is a final record
  without a newline, and it is called once. The second run is the same record followed
  by a chunk without text: at the end of the stream the buffer is the record followed by
  \<open>undefined\<close>, \<open>JSON.parse\<close> throws, and the record is never called.
\<close>

theorem final_record_lost_after_chunk_without_text:
  \<open>generateSubtitles
     (\<lambda>transcript audio. Inr
        (Chunk (Some (js ''{"id":1,"startTime":"00:00:00,000","endTime":"00:00:02,500","text":"Hello"}''))
         Done))
     (js ''transcript'') (js ''audio/mpeg'', js ''AAAA'') record_call [] =
   (Inr (),
    [JObject [(js ''id'', JNumber (Finite False 1 0)), (js ''startTime'', JString (js ''00:00:00,000'')),
              (js ''endTime'', JString (js ''00:00:02,500'')), (js ''text'', JString (js ''Hello''))]]) \<and>
   generateSubtitles
     (\<lambda>transcript audio. Inr
        (Chunk (Some (js ''{"id":1,"startTime":"00:00:00,000","endTime":"00:00:02,500","text":"Hello"}''))
        (Chunk None Done)))
     (js ''transcript'') (js ''audio/mpeg'', js ''AAAA'') record_call [] =
   (Inr (), [])\<close>
  by code_simp

text \<open>
  C4. A line reaches the callback exactly when it parses as JSON to an object with the
  four fields of the right types; any other line changes nothing. Whatever the line is,
  the loop goes on with the text after its newline, and a run whose stream does not throw
  resolves.
\<close>

theorem invalid_line_dropped:
  "parse_line f line st =
     (case JSON_parse line of
        Inl e \<Rightarrow> st
      | Inr v \<Rightarrow> if spec_valid_block v then f v st else st) \<and>
   (NL \<notin> set l \<longrightarrow>
      extract_lines f (l @ NL # rest) st = extract_lines f rest (spec_dispatch f l st)) \<and>
   (ai transcript audio = Inr s \<and> \<not> throws s \<longrightarrow>
      fst (generateSubtitles ai transcript audio f st) = Inr ())"
  by (simp add: parse_line_cases extract_lines_line generateSubtitles_split)

theorem invalid_line_dropped_witness:
  \<open>parse_line record_call (js ''{"id":1,"startTime":"00:00:00,000","endTime":"00:00:02,500"}'') [] = [] \<and>
   extract_lines record_call
     (js ''{"id":1,"startTime":"00:00:00,000","endTime":"00:00:02,500"}'' @ NL #
      js ''{"id":2,"startTime":"00:00:02,500","endTime":"00:00:04,000","text":"World"}'' @ [NL]) [] =
     ([], [JObject [(js ''id'', JNumber (Finite False 1 1)), (js ''startTime'', JString (js ''00:00:02,500'')),
                    (js ''endTime'', JString (js ''00:00:04,000'')), (js ''text'', JString (js ''World''))]]) \<and>
   fst (generateSubtitles
     (\<lambda>transcript audio. Inr
        (Chunk (Some (js ''{"id":1,"startTime":"00:00:00,000","endTime":"00:00:02,500"}'' @ [NL])) Done))
     (js ''transcript'') (js ''audio/mpeg'', js ''AAAA'') record_call []) = Inr ()\<close>
proof -
  let ?l = \<open>js ''{"id":1,"startTime":"00:00:00,000","endTime":"00:00:02,500"}''\<close>
  let ?r = \<open>js ''{"id":2,"startTime":"00:00:02,500","endTime":"00:00:04,000","text":"World"}'' @ [NL]\<close>
  let ?s = "Chunk (Some (?l @ [NL])) Done"
  have p: "JSON_parse ?l =
      Inr (JObject [(js ''id'', JNumber (Finite False 1 0)), (js ''startTime'', JString (js ''00:00:00,000'')),
                    (js ''endTime'', JString (js ''00:00:02,500''))])"
    by code_simp
  have n: "NL \<notin> set ?l"
    by code_simp
  have d: "spec_dispatch record_call ?l [] = []"
    by code_simp
  have e: "extract_lines record_call ?r [] =
      ([], [JObject [(js ''id'', JNumber (Finite False 1 1)), (js ''startTime'', JString (js ''00:00:02,500'')),
                     (js ''endTime'', JString (js ''00:00:04,000'')), (js ''text'', JString (js ''World''))]])"
    by code_simp
  have t: "\<not> throws ?s"
    by simp
  show ?thesis
    using invalid_line_dropped [of record_call ?l "[]" ?l ?r "\<lambda>transcript audio. Inr ?s"
        "js ''transcript''" "(js ''audio/mpeg'', js ''AAAA'')" ?s] n t
    by (simp only: p d e) simp
qed

text \<open>
  C9. For an object, the validation is the conjunction of the four \<open>typeof\<close> checks and
  nothing else: whatever number \<open>id\<close> is and whatever other members the object has, the
  object itself goes to the callback.
\<close>

theorem typeof_checks_only:
  "basic_validation (JObject members) =
     Inr (typeof (map_of (rev members) (js ''id'')) = ''number'' \<and>
          typeof (map_of (rev members) (js ''startTime'')) = ''string'' \<and>
          typeof (map_of (rev members) (js ''endTime'')) = ''string'' \<and>
          typeof (map_of (rev members) (js ''text'')) = ''string'') \<and>
   (JSON_parse line = Inr (JObject members) \<and>
    map_of (rev members) (js ''id'') = Some (JNumber n) \<and>
    map_of (rev members) (js ''startTime'') = Some (JString s) \<and>
    map_of (rev members) (js ''endTime'') = Some (JString e) \<and>
    map_of (rev members) (js ''text'') = Some (JString t) \<longrightarrow>
      parse_line f line st = f (JObject members) st)"
  by (simp add: basic_validation_object parse_line_cases)

theorem typeof_checks_only_witness:
  \<open>basic_validation
     (JObject [(js ''id'', JNumber (Finite True 3 (- 1))), (js ''startTime'', JString (js ''x'')),
               (js ''endTime'', JString (js ''y'')), (js ''text'', JString (js ''z'')),
               (js ''extra'', JArray [JNumber (Finite False 0 0), JBool True])]) = Inr True \<and>
   parse_line record_call
     (js ''{"id":-1.5,"startTime":"x","endTime":"y","text":"z","extra":[0,true]}'') [] =
     [JObject [(js ''id'', JNumber (Finite True 3 (- 1))), (js ''startTime'', JString (js ''x'')),
               (js ''endTime'', JString (js ''y'')), (js ''text'', JString (js ''z'')),
               (js ''extra'', JArray [JNumber (Finite False 0 0), JBool True])]]\<close>
proof -
  let ?l = \<open>js ''{"id":-1.5,"startTime":"x","endTime":"y","text":"z","extra":[0,true]}''\<close>
  let ?m = "[(js ''id'', JNumber (Finite True 3 (- 1))), (js ''startTime'', JString (js ''x'')),
               (js ''endTime'', JString (js ''y'')), (js ''text'', JString (js ''z'')),
               (js ''extra'', JArray [JNumber (Finite False 0 0), JBool True])]"
  have p: "JSON_parse ?l = Inr (JObject ?m)"
    by code_simp
  show ?thesis
    using typeof_checks_only [of ?m ?l "Finite True 3 (- 1)" "js ''x''" "js ''y''" "js ''z''"
        record_call "[]"] p
    by (simp add: record_call_def)
qed

text \<open>
  C10. A line makes no call or one call. A line that parses to \<open>null\<close>, where the
  property read throws, or to a number, where it gives \<open>undefined\<close>, makes none; after
  any line the loop goes on with the text after its newline; and whatever its lines
  are, a run whose stream does not throw resolves.
\<close>

theorem line_never_aborts:
  "(parse_line record_call line calls = calls \<or>
    (\<exists>v. parse_line record_call line calls = calls @ [v])) \<and>
   (JSON_parse line = Inr JNull \<longrightarrow> parse_line f line st = st) \<and>
   (JSON_parse line = Inr (JNumber x) \<longrightarrow> parse_line f line st = st) \<and>
   (NL \<notin> set l \<longrightarrow>
      extract_lines f (l @ NL # rest) st = extract_lines f rest (spec_dispatch f l st)) \<and>
   (ai transcript audio = Inr s \<and> \<not> throws s \<longrightarrow>
      fst (generateSubtitles ai transcript audio f st) = Inr ())"
  by (simp add: parse_line_cases extract_lines_line generateSubtitles_split record_call_def
      split: sum.splits)

theorem line_never_aborts_witness:
  \<open>parse_line record_call (js ''null'') [] = [] \<and>
   parse_line record_call (js ''5'') [] = [] \<and>
   extract_lines record_call
     (js ''null'' @ NL #
      js ''{"id":2,"startTime":"00:00:02,500","endTime":"00:00:04,000","text":"World"}'' @ [NL]) [] =
     ([], [JObject [(js ''id'', JNumber (Finite False 1 1)), (js ''startTime'', JString (js ''00:00:02,500'')),
                    (js ''endTime'', JString (js ''00:00:04,000'')), (js ''text'', JString (js ''World''))]])\<close>
proof -
  let ?r = \<open>js ''{"id":2,"startTime":"00:00:02,500","endTime":"00:00:04,000","text":"World"}'' @ [NL]\<close>
  have p: "JSON_parse (js ''null'') = Inr JNull" and q: "JSON_parse (js ''5'') = Inr (JNumber (Finite False 5 0))"
    by code_simp+
  have n: "NL \<notin> set (js ''null'')"
    by code_simp
  have d: "spec_dispatch record_call (js ''null'') [] = []"
    by code_simp
  have e: "extract_lines record_call ?r [] =
      ([], [JObject [(js ''id'', JNumber (Finite False 1 1)), (js ''startTime'', JString (js ''00:00:02,500'')),
                     (js ''endTime'', JString (js ''00:00:04,000'')), (js ''text'', JString (js ''World''))]])"
    by code_simp
  show ?thesis
    using line_never_aborts [of "js ''null''" "[]" record_call "[]" "Finite False 5 0" "js ''null''" ?r]
      line_never_aborts [of "js ''5''" "[]" record_call "[]" "Finite False 5 0" "js ''null''" ?r] p q n
    by (simp only: d e) simp
qed

section \<open>The assembler and the orchestrator\<close>

lemma onProgress_text: "onProgress block st = st\<lparr>srtContent := srtContent st @ spec_block_text block\<rparr>"
  by (simp add: onProgress_def spec_block_text_def split: sum.splits)

lemma fold_onProgress:
  "fold onProgress blocks st =
     st\<lparr>srtContent := srtContent st @ concat (map spec_block_text blocks)\<rparr>"
  by (induction blocks arbitrary: st) (simp_all add: onProgress_text)

lemma srtBlock_valid:
  assumes "map_of (rev members) (js ''id'') = Some (JNumber n)"
    and "map_of (rev members) (js ''startTime'') = Some (JString s)"
    and "map_of (rev members) (js ''endTime'') = Some (JString e)"
    and "map_of (rev members) (js ''text'') = Some (JString t)"
  shows "srtBlock (JObject members) =
     Inr (Number_toString n @ [NL] @ s @ js '' --> '' @ e @ [NL] @ t @ [NL, NL])"
  using assms by (simp add: srtBlock_def ToString_def)

lemma not_space_digits:
  "\<forall>c \<in> set (map digit_char [0, 1, 2, 3, 4, 5, 6, 7, 8, 9]). \<not> WhiteSpace c \<and> c \<noteq> NL"
  by code_simp

lemma not_space_symbols:
  "\<forall>c \<in> set (js ''-+.eInfinity''). \<not> WhiteSpace c \<and> c \<noteq> NL"
  by code_simp

lemma digit_char_digit:
  assumes "0 \<le> d" and "d < 10"
  shows "\<not> WhiteSpace (digit_char d) \<and> digit_char d \<noteq> NL"
proof -
  have "d \<in> set [0, 1, 2, 3, 4, 5, 6, 7, 8, 9]"
    using assms by (simp only: set_simps insert_iff empty_iff) arith
  then have "digit_char d \<in> set (map digit_char [0, 1, 2, 3, 4, 5, 6, 7, 8, 9])"
    by (simp only: set_map) (rule imageI)
  then show ?thesis
    using not_space_digits by blast
qed

lemma show_nat_digits:
  "0 \<le> n \<Longrightarrow> \<forall>c \<in> set (show_nat n). \<not> WhiteSpace c \<and> c \<noteq> NL"
proof (induction n rule: show_nat.induct)
  case (1 n)
  show ?case
  proof (cases "n < 10")
    case True
    then show ?thesis
      using digit_char_digit [of n] 1(2) by (subst show_nat.simps) simp
  next
    case False
    have "0 \<le> n mod 10" "n mod 10 < 10" "0 \<le> n div 10"
      using 1(2) by simp_all
    then show ?thesis
      using False 1(1) digit_char_digit [of "n mod 10"] by (subst show_nat.simps) simp
  qed
qed

lemma show_nat_not_Nil: "show_nat n \<noteq> []"
  by (subst show_nat.simps) simp

lemma show_digits_no_space:
  assumes "0 \<le> s"
  shows "(\<forall>c \<in> set (show_digits s n). \<not> WhiteSpace c \<and> c \<noteq> NL) \<and> show_digits s n \<noteq> []"
proof -
  define P where "P c \<longleftrightarrow> \<not> WhiteSpace c \<and> c \<noteq> NL" for c
  have sym: "P 0x2D" "P 0x2B" "P 0x2E" "P 0x65" "P 0x30"
    using not_space_symbols not_space_digits by (simp_all add: P_def digit_char_def)
  define ds where "ds = show_nat s"
  define ex where "ex = show_nat \<bar>n - 1\<bar>"
  have d: "\<forall>c \<in> set ds. P c" and x: "\<forall>c \<in> set ex. P c"
    using assms show_nat_digits [of s] show_nat_digits [of "\<bar>n - 1\<bar>"]
    by (simp_all add: ds_def ex_def P_def)
  then have t: "\<forall>c \<in> set (take j ds). P c" and r: "\<forall>c \<in> set (drop j ds). P c" for j
    by (blast dest: in_set_takeD in_set_dropD)+
  have dn: "ds \<noteq> []"
    by (simp add: ds_def show_nat_not_Nil)
  have eq: "show_digits s n =
     (let k = int (length ds)
      in if k \<le> n \<and> n \<le> 21 then ds @ replicate (nat (n - k)) (0x30)
         else if 0 < n \<and> n \<le> 21 then take (nat n) ds @ [0x2E] @ drop (nat n) ds
         else if - 6 < n \<and> n \<le> 0 then [0x30, 0x2E] @ replicate (nat (- n)) (0x30) @ ds
         else
           (let exs = (if n - 1 < 0 then [0x2D] else [0x2B]) @ ex
            in if k = 1 then ds @ [0x65] @ exs
               else take 1 ds @ [0x2E] @ drop 1 ds @ [0x65] @ exs))"
    by (simp add: show_digits_def ds_def ex_def Let_def)
  have "(\<forall>c \<in> set (show_digits s n). P c) \<and> show_digits s n \<noteq> []"
    unfolding eq Let_def
    using d x t r sym dn by auto
  then show ?thesis
    by (simp add: P_def)
qed

lemma strip10_nonneg: "0 \<le> strip10 s"
proof (induction s rule: strip10.induct)
  case (1 s)
  then show ?case
    by (subst strip10.simps) simp
qed

lemma candidate_nonneg: "candidate m e num den n k = Some (s, p) \<Longrightarrow> 0 \<le> s"
  by (auto simp: candidate_def Let_def strip10_nonneg split: if_splits)

lemma shortest_from_nonneg: "shortest_from m e num den n ks = (s, p) \<Longrightarrow> 0 \<le> s"
  by (induction ks) (auto simp: candidate_nonneg split: option.splits)

lemma shortest_nonneg: "shortest m e = (s, p) \<Longrightarrow> 0 \<le> s"
  unfolding shortest_def Let_def by (rule shortest_from_nonneg)

lemma Number_toString_no_space:
  "(\<forall>c \<in> set (Number_toString x). \<not> WhiteSpace c \<and> c \<noteq> NL) \<and> Number_toString x \<noteq> []"
proof (cases x)
  case (Finite neg m e)
  obtain s n where sh: "shortest m e = (s, n)"
    by (cases "shortest m e")
  have "\<not> WhiteSpace 0x2D \<and> 0x2D \<noteq> NL" "\<not> WhiteSpace 0x30 \<and> 0x30 \<noteq> NL"
    using not_space_symbols not_space_digits by (simp_all add: digit_char_def)
  then show ?thesis
    using show_digits_no_space [OF shortest_nonneg [OF sh], of n]
    by (auto simp: Finite sh)
next
  case (Infinity neg)
  then show ?thesis
    using not_space_symbols by simp
qed

lemma trim_no_leading: "s \<noteq> [] \<Longrightarrow> \<not> WhiteSpace (hd s) \<Longrightarrow> trim s = trimEnd s"
  by (cases s) (simp_all add: trim_def trimStart_def)

lemma spec_valid_block_members:
  assumes "spec_valid_block block"
  obtains members n s e t where "block = JObject members"
    and "map_of (rev members) (js ''id'') = Some (JNumber n)"
    and "map_of (rev members) (js ''startTime'') = Some (JString s)"
    and "map_of (rev members) (js ''endTime'') = Some (JString e)"
    and "map_of (rev members) (js ''text'') = Some (JString t)"
proof (cases block)
  case (JObject members)
  have n: "is_number v \<Longrightarrow> \<exists>n. v = Some (JNumber n)" for v
    by (cases v rule: is_number.cases) simp_all
  have s: "is_string v \<Longrightarrow> \<exists>s. v = Some (JString s)" for v
    by (cases v rule: is_string.cases) simp_all
  show ?thesis
    using assms that [of members] unfolding JObject spec_valid_block.simps
    by (blast dest: n s)
qed (use assms in simp_all)

lemma spec_block_text_valid:
  assumes "map_of (rev members) (js ''id'') = Some (JNumber n)"
    and "map_of (rev members) (js ''startTime'') = Some (JString s)"
    and "map_of (rev members) (js ''endTime'') = Some (JString e)"
    and "map_of (rev members) (js ''text'') = Some (JString t)"
  shows "spec_block_text (JObject members) =
     Number_toString n @ [NL] @ s @ js '' --> '' @ e @ [NL] @ t @ [NL, NL]"
  using srtBlock_valid [OF assms] by (simp add: spec_block_text_def)

lemma spec_block_text_head:
  assumes "spec_valid_block block"
  shows "spec_block_text block \<noteq> [] \<and> \<not> WhiteSpace (hd (spec_block_text block))"
proof -
  obtain members n s e t where b: "block = JObject members"
    and f: "map_of (rev members) (js ''id'') = Some (JNumber n)"
      "map_of (rev members) (js ''startTime'') = Some (JString s)"
      "map_of (rev members) (js ''endTime'') = Some (JString e)"
      "map_of (rev members) (js ''text'') = Some (JString t)"
    using assms by (rule spec_valid_block_members)
  have ne: "Number_toString n \<noteq> []" and "hd (Number_toString n) \<in> set (Number_toString n)"
    using Number_toString_no_space [of n] by simp_all
  then have "\<not> WhiteSpace (hd (Number_toString n))"
    using Number_toString_no_space [of n] by blast
  then show ?thesis
    using ne by (simp add: b spec_block_text_valid [OF f])
qed

lemma count_newlines_number: "filter (\<lambda>c. c = NL) (Number_toString n) = []"
  using Number_toString_no_space [of n] by (simp add: filter_empty_conv)

lemma export_trailing_only:
  assumes "srtContent st = []" and "blocks \<noteq> []" and "\<forall>b \<in> set blocks. spec_valid_block b"
  shows "map_option blob (handleDownloadClick (fold onProgress blocks st)) =
           Some (trimEnd (srtContent (fold onProgress blocks st)))"
proof -
  obtain b bs where blocks: "blocks = b # bs"
    using assms(2) by (cases blocks) simp_all
  define acc where "acc = srtContent (fold onProgress blocks st)"
  have acc: "acc = spec_block_text b @ concat (map spec_block_text bs)"
    using assms(1) by (simp add: acc_def blocks fold_onProgress onProgress_text)
  have h: "spec_block_text b \<noteq> [] \<and> \<not> WhiteSpace (hd (spec_block_text b))"
    using assms(3) by (simp add: blocks spec_block_text_head)
  then have "acc \<noteq> []" and "\<not> WhiteSpace (hd acc)"
    by (simp_all add: acc)
  then have "acc \<noteq> []" and "trim acc = trimEnd acc"
    by (simp_all add: trim_no_leading)
  then show ?thesis
    unfolding acc_def [symmetric] handleDownloadClick_def Let_def
    by (simp add: acc_def)
qed

lemma catch_err_srtContent: "srtContent (catch_err st) = srtContent st"
  by (simp add: catch_err_def)

lemma generateSubtitles_onProgress:
  "snd (generateSubtitles ai transcript audio onProgress st) =
     st\<lparr>srtContent := srtContent st @ concat (map spec_block_text
         (case ai transcript audio of
            Inl err \<Rightarrow> []
          | Inr s \<Rightarrow> spec_valid_records
              (if throws s then butlast (split_lines (concat (chunks_of s)))
               else split_lines (concat (chunks_of s)))))\<rparr>"
proof (cases "ai transcript audio")
  case (Inl err)
  then show ?thesis by (simp add: generateSubtitles_rejected)
next
  case (Inr s)
  then show ?thesis by (simp add: generateSubtitles_split fold_onProgress)
qed

lemma generateSubtitles_outcome:
  "fst (generateSubtitles ai transcript audio f st) =
     (case ai transcript audio of
        Inl err \<Rightarrow> Inl (Error ''Failed to communicate with the AI model.'')
      | Inr s \<Rightarrow> if throws s then Inl (Error ''Failed to communicate with the AI model.'')
                 else Inr ())"
proof (cases "ai transcript audio")
  case (Inl err)
  then show ?thesis by (simp add: generateSubtitles_rejected)
next
  case (Inr s)
  then show ?thesis by (simp add: generateSubtitles_split)
qed

lemma handleGenerateClick_state:
  assumes "textFile st \<noteq> None" and "audioFile st \<noteq> None"
  shows "handleGenerateClick fileToText fileToBase64 ai st =
     (if spec_run_fails fileToText fileToBase64 ai then
        st\<lparr>srtContent := spec_run_text fileToText fileToBase64 ai,
           isLoading := False, loadingMessage := [],
           error := Some ''Failed to generate subtitles. Please check the files and try again.'',
           progress := 0\<rparr>
      else
        st\<lparr>srtContent := spec_run_text fileToText fileToBase64 ai,
           isLoading := True, loadingMessage := ''Subtitles generated successfully!'',
           error := None, progress := 100\<rparr>)"
proof (cases fileToText)
  case (Inl e)
  then show ?thesis
    using assms
    by (auto simp: handleGenerateClick_def spec_run_fails_def spec_run_text_def catch_err_def)
next
  case t: (Inr transcript)
  show ?thesis
  proof (cases fileToBase64)
    case (Inl e)
    then show ?thesis
      using assms t
      by (auto simp: handleGenerateClick_def spec_run_fails_def spec_run_text_def catch_err_def)
  next
    case a: (Inr audio)
    define st4 where "st4 =
        st\<lparr>isLoading := True, error := None, srtContent := [],
           loadingMessage := ''Generating synchronized subtitles...'', progress := 50\<rparr>"
    obtain r st5 where g: "generateSubtitles ai transcript audio onProgress st4 = (r, st5)"
      by (cases "generateSubtitles ai transcript audio onProgress st4")
    have "r = fst (generateSubtitles ai transcript audio onProgress st4)"
      and "st5 = snd (generateSubtitles ai transcript audio onProgress st4)"
      by (simp_all add: g)
    then have r: "r = (case ai transcript audio of
        Inl err \<Rightarrow> Inl (Error ''Failed to communicate with the AI model.'')
      | Inr s \<Rightarrow> if throws s then Inl (Error ''Failed to communicate with the AI model.'')
                 else Inr ())"
      and st5: "st5 = st4\<lparr>srtContent := spec_run_text fileToText fileToBase64 ai\<rparr>"
      by (simp_all add: generateSubtitles_outcome generateSubtitles_onProgress
          spec_run_text_def t a st4_def split: sum.splits)
    have h: "handleGenerateClick fileToText fileToBase64 ai st =
        (case (r, st5) of
           (Inl err, st5) \<Rightarrow> catch_err st5
         | (Inr u, st5) \<Rightarrow>
             st5\<lparr>loadingMessage := ''Subtitles generated successfully!'', progress := 100\<rparr>)"
      using assms by (auto simp: handleGenerateClick_def t a g [symmetric] st4_def Let_def)
    show ?thesis
      unfolding h
      by (simp add: r st5 st4_def spec_run_fails_def t a catch_err_def split: sum.splits)
  qed
qed

text \<open>
  The numbers at the edges of the double format: an integer above \<open>2 ^ 53\<close> is rounded
  to the nearest double, a literal above the largest double is \<open>Infinity\<close>, the shortest
  digits that give the double back are printed, and the escape of the code unit U+010A is that
  code unit, not a newline.
\<close>

lemma double_rounds_integer:
  "JSON_parse (js ''9007199254740993'') = Inr (JNumber (Finite False 1 53))"
  "Number_toString (Finite False 1 53) = js ''9007199254740992''"
  by code_simp+

lemma double_overflows: "JSON_parse (js ''1e400'') = Inr (JNumber (Infinity False))"
  by code_simp

lemma double_shortest_digits:
  "JSON_parse (js ''0.100000000000000005'') = JSON_parse (js ''0.1'')"
  "Number_toString (to_double False 1 (- 1)) = js ''0.1''"
  "Number_toString (to_double True 123456789012345678 4) = js ''-1.2345678901234568e+21''"
  by code_simp+

lemma escape_code_unit:
  \<open>JSON_parse (js ''"'' @ [0x5C] @ js ''u010A"'') = Inr (JString [0x010A])\<close>
  by code_simp

section \<open>The claims about the assembler and the orchestrator\<close>

text \<open>
  C5, as amended. For a block with the four fields, \<open>onProgress\<close> appends the id as
  \<open>Number::toString\<close> prints the double, a newline, \<open>startTime --> endTime\<close>, a newline,
  the text, and two newlines: four lines when the times and the text have no newline of
  their own. The file that \<open>handleDownloadClick\<close> saves for a text assembled from valid
  blocks is this text without its trailing white space: \<open>trim\<close> finds none in front,
  since the text starts with a number.
\<close>

theorem block_four_lines_and_export:
  assumes "map_of (rev members) (js ''id'') = Some (JNumber n)"
    and "map_of (rev members) (js ''startTime'') = Some (JString s)"
    and "map_of (rev members) (js ''endTime'') = Some (JString e)"
    and "map_of (rev members) (js ''text'') = Some (JString t)"
  shows "srtContent (onProgress (JObject members) st) =
           srtContent st @ Number_toString n @ [NL] @ s @ js '' --> '' @ e @ [NL] @ t @ [NL, NL] \<and>
         (NL \<notin> set s \<and> NL \<notin> set e \<and> NL \<notin> set t \<longrightarrow>
            length (filter (\<lambda>c. c = NL) (spec_block_text (JObject members))) = 4) \<and>
         (srtContent st0 = [] \<and> blocks \<noteq> [] \<and> (\<forall>b \<in> set blocks. spec_valid_block b) \<longrightarrow>
            map_option blob (handleDownloadClick (fold onProgress blocks st0)) =
              Some (trimEnd (srtContent (fold onProgress blocks st0))))"
proof (intro conjI impI)
  show "srtContent (onProgress (JObject members) st) =
      srtContent st @ Number_toString n @ [NL] @ s @ js '' --> '' @ e @ [NL] @ t @ [NL, NL]"
    by (simp add: onProgress_text spec_block_text_valid [OF assms])
next
  assume "NL \<notin> set s \<and> NL \<notin> set e \<and> NL \<notin> set t"
  then have "filter (\<lambda>c. c = NL) s = []" "filter (\<lambda>c. c = NL) e = []" "filter (\<lambda>c. c = NL) t = []"
    by (auto simp: filter_empty_conv)
  moreover have "filter (\<lambda>c. c = NL) (js '' --> '') = []"
    by code_simp
  ultimately show "length (filter (\<lambda>c. c = NL) (spec_block_text (JObject members))) = 4"
    by (simp add: spec_block_text_valid [OF assms] count_newlines_number del: list.map)
next
  assume "srtContent st0 = [] \<and> blocks \<noteq> [] \<and> (\<forall>b \<in> set blocks. spec_valid_block b)"
  then show "map_option blob (handleDownloadClick (fold onProgress blocks st0)) =
      Some (trimEnd (srtContent (fold onProgress blocks st0)))"
    by (simp add: export_trailing_only)
qed

theorem block_four_lines_and_export_witness:
  "(let block = JObject [(js ''id'', JNumber (Finite False 1 0)), (js ''startTime'', JString (js ''00:00:00,000'')),
                         (js ''endTime'', JString (js ''00:00:01,000'')), (js ''text'', JString (js ''Hi''))];
        st0 = \<lparr>textFile = Some \<lparr>name = js ''talk.txt''\<rparr>, audioFile = Some \<lparr>name = js ''talk.mp3''\<rparr>,
               srtContent = [], isLoading = True,
               loadingMessage = ''Generating synchronized subtitles...'', error = None,
               progress = 50\<rparr>
    in srtContent (onProgress block st0) =
         js ''1'' @ [NL] @ js ''00:00:00,000 --> 00:00:01,000'' @ [NL] @ js ''Hi'' @ [NL, NL] \<and>
       length (filter (\<lambda>c. c = NL) (spec_block_text block)) = 4 \<and>
       map_option blob (handleDownloadClick (fold onProgress [block] st0)) =
         Some (js ''1'' @ [NL] @ js ''00:00:00,000 --> 00:00:01,000'' @ [NL] @ js ''Hi''))"
proof -
  let ?m = "[(js ''id'', JNumber (Finite False 1 0)), (js ''startTime'', JString (js ''00:00:00,000'')),
             (js ''endTime'', JString (js ''00:00:01,000'')), (js ''text'', JString (js ''Hi''))]"
  let ?st0 = "\<lparr>textFile = Some \<lparr>name = js ''talk.txt''\<rparr>, audioFile = Some \<lparr>name = js ''talk.mp3''\<rparr>,
               srtContent = [], isLoading = True,
               loadingMessage = ''Generating synchronized subtitles...'', error = None,
               progress = 50\<rparr>"
  let ?text = "js ''1'' @ [NL] @ js ''00:00:00,000 --> 00:00:01,000'' @ [NL] @ js ''Hi'' @ [NL, NL]"
  have n: "Number_toString (Finite False 1 0) = js ''1''"
    by code_simp
  have t: "trimEnd ?text = js ''1'' @ [NL] @ js ''00:00:00,000 --> 00:00:01,000'' @ [NL] @ js ''Hi''"
    by code_simp
  have l: "NL \<notin> set (js ''00:00:00,000'') \<and> NL \<notin> set (js ''00:00:01,000'') \<and> NL \<notin> set (js ''Hi'')"
    by code_simp
  have v: "srtContent ?st0 = [] \<and> [JObject ?m] \<noteq> [] \<and> (\<forall>b \<in> set [JObject ?m]. spec_valid_block b)"
    by simp
  have f: "map_of (rev ?m) (js ''id'') = Some (JNumber (Finite False 1 0))"
    "map_of (rev ?m) (js ''startTime'') = Some (JString (js ''00:00:00,000''))"
    "map_of (rev ?m) (js ''endTime'') = Some (JString (js ''00:00:01,000''))"
    "map_of (rev ?m) (js ''text'') = Some (JString (js ''Hi''))"
    by simp_all
  note T = block_four_lines_and_export [of ?m "Finite False 1 0" "js ''00:00:00,000''" "js ''00:00:01,000''"
        "js ''Hi''" ?st0 ?st0 "[JObject ?m]", OF f]
  have c1: "srtContent (onProgress (JObject ?m) ?st0) = ?text"
    using T [THEN conjunct1] by (simp add: n del: Number_toString.simps)
  have c2: "length (filter (\<lambda>c. c = NL) (spec_block_text (JObject ?m))) = 4"
    using T [THEN conjunct2, THEN conjunct1] l by (rule mp)
  have "map_option blob (handleDownloadClick (fold onProgress [JObject ?m] ?st0)) =
        Some (trimEnd (srtContent (fold onProgress [JObject ?m] ?st0)))"
    using T [THEN conjunct2, THEN conjunct2] v by (rule mp)
  moreover have "srtContent (fold onProgress [JObject ?m] ?st0) = ?text"
    using c1 by simp
  ultimately have c3: "map_option blob (handleDownloadClick (fold onProgress [JObject ?m] ?st0)) =
        Some (js ''1'' @ [NL] @ js ''00:00:00,000 --> 00:00:01,000'' @ [NL] @ js ''Hi'')"
    by (simp only: t)
  show ?thesis
    unfolding Let_def using c1 c2 c3 by (intro conjI)
qed

text \<open>
  C5 as it is written fails where it counts the lines: the text of a caption may hold a
  newline, written \<open>\n\<close> in the JSON of its record, and the block then has a line more.
\<close>

theorem caption_of_two_lines_counterexample:
  \<open>(let ai = (\<lambda>transcript audio. Inr
               (Chunk (Some (js ''{"id":1,"startTime":"00:00:00,000","endTime":"00:00:01,000","text":"Hi'' @
                       [0x5C] @ js ''nthere"}'' @ [NL])) Done));
        st = \<lparr>textFile = Some \<lparr>name = js ''talk.txt''\<rparr>, audioFile = Some \<lparr>name = js ''talk.mp3''\<rparr>,
              srtContent = [], isLoading = False, loadingMessage = [], error = None,
              progress = 0\<rparr>;
        st' = handleGenerateClick (Inr (js ''Hi there'')) (Inr (js ''audio/mpeg'', js ''AAAA'')) ai st
    in srtContent st' =
         js ''1'' @ [NL] @ js ''00:00:00,000 --> 00:00:01,000'' @ [NL] @ js ''Hi'' @ [NL] @ js ''there'' @ [NL, NL] \<and>
       length (filter (\<lambda>c. c = NL) (srtContent st')) = 5)\<close>
  by code_simp

text \<open>
  C6. \<open>onProgress\<close> changes nothing but \<open>srtContent\<close>, to which it appends the block's
  serialization; after any list of blocks, whatever their ids, the text is the old text
  followed by the serializations in the order of the calls. A run assembles the same
  text from the same inputs whatever the state it starts in.
\<close>

theorem append_only:
  "onProgress block st = st\<lparr>srtContent := srtContent st @ spec_block_text block\<rparr> \<and>
   srtContent (fold onProgress blocks st) = srtContent st @ concat (map spec_block_text blocks) \<and>
   (textFile st \<noteq> None \<and> audioFile st \<noteq> None \<and> textFile st' \<noteq> None \<and> audioFile st' \<noteq> None \<longrightarrow>
      srtContent (handleGenerateClick fileToText fileToBase64 ai st) =
      srtContent (handleGenerateClick fileToText fileToBase64 ai st'))"
  by (simp add: onProgress_text fold_onProgress handleGenerateClick_state)

theorem append_only_witness:
  \<open>(let b3 = JObject [(js ''id'', JNumber (Finite False 3 0)), (js ''startTime'', JString (js ''00:00:05,000'')),
                      (js ''endTime'', JString (js ''00:00:06,000'')), (js ''text'', JString (js ''late''))];
        b1 = JObject [(js ''id'', JNumber (Finite False 1 0)), (js ''startTime'', JString (js ''00:00:00,000'')),
                      (js ''endTime'', JString (js ''00:00:01,000'')), (js ''text'', JString (js ''Hi''))];
        st = \<lparr>textFile = Some \<lparr>name = js ''talk.txt''\<rparr>, audioFile = Some \<lparr>name = js ''talk.mp3''\<rparr>,
              srtContent = js ''0'', isLoading = True, loadingMessage = [], error = None,
              progress = 50\<rparr>;
        ai = (\<lambda>transcript audio. Inr
               (Chunk (Some (js ''{"id":1,"startTime":"00:00:00,000","endTime":"00:00:01,000","text":"Hi"}''
                       @ [NL])) Done))
    in srtContent (fold onProgress [b3, b1] st) =
         js ''0'' @ js ''3'' @ [NL] @ js ''00:00:05,000 --> 00:00:06,000'' @ [NL] @ js ''late'' @ [NL, NL]
             @ js ''1'' @ [NL] @ js ''00:00:00,000 --> 00:00:01,000'' @ [NL] @ js ''Hi'' @ [NL, NL] \<and>
       srtContent (handleGenerateClick (Inr (js ''Hi'')) (Inr (js ''audio/mpeg'', js ''AAAA'')) ai st) =
       srtContent (handleGenerateClick (Inr (js ''Hi'')) (Inr (js ''audio/mpeg'', js ''AAAA'')) ai
                     (st\<lparr>srtContent := [], error := Some ''stale'', isLoading := False\<rparr>)))\<close>
proof -
  let ?b3 = "JObject [(js ''id'', JNumber (Finite False 3 0)), (js ''startTime'', JString (js ''00:00:05,000'')),
                      (js ''endTime'', JString (js ''00:00:06,000'')), (js ''text'', JString (js ''late''))]"
  let ?b1 = "JObject [(js ''id'', JNumber (Finite False 1 0)), (js ''startTime'', JString (js ''00:00:00,000'')),
                      (js ''endTime'', JString (js ''00:00:01,000'')), (js ''text'', JString (js ''Hi''))]"
  let ?st = "\<lparr>textFile = Some \<lparr>name = js ''talk.txt''\<rparr>, audioFile = Some \<lparr>name = js ''talk.mp3''\<rparr>,
              srtContent = js ''0'', isLoading = True, loadingMessage = [], error = None,
              progress = 50\<rparr>"
  let ?st' = "?st\<lparr>srtContent := [], error := Some ''stale'', isLoading := False\<rparr>"
  let ?ai = \<open>(\<lambda>transcript audio. Inr
               (Chunk (Some (js ''{"id":1,"startTime":"00:00:00,000","endTime":"00:00:01,000","text":"Hi"}''
                       @ [NL])) Done)) :: jsstring \<Rightarrow> jsstring \<times> jsstring \<Rightarrow> js_error + stream\<close>
  have t: "concat (map spec_block_text [?b3, ?b1]) =
      js ''3'' @ [NL] @ js ''00:00:05,000 --> 00:00:06,000'' @ [NL] @ js ''late'' @ [NL, NL]
        @ js ''1'' @ [NL] @ js ''00:00:00,000 --> 00:00:01,000'' @ [NL] @ js ''Hi'' @ [NL, NL]"
    by code_simp
  have f: "textFile ?st \<noteq> None \<and> audioFile ?st \<noteq> None \<and>
      textFile ?st' \<noteq> None \<and> audioFile ?st' \<noteq> None"
    by simp
  note T = append_only [of ?b3 ?st "[?b3, ?b1]" ?st' "Inr (js ''Hi'')" "Inr (js ''audio/mpeg'', js ''AAAA'')" ?ai]
  have c1: "srtContent (fold onProgress [?b3, ?b1] ?st) =
         js ''0'' @ js ''3'' @ [NL] @ js ''00:00:05,000 --> 00:00:06,000'' @ [NL] @ js ''late'' @ [NL, NL]
             @ js ''1'' @ [NL] @ js ''00:00:00,000 --> 00:00:01,000'' @ [NL] @ js ''Hi'' @ [NL, NL]"
    using T [THEN conjunct2, THEN conjunct1] by (simp only: t) simp
  have c2: "srtContent (handleGenerateClick (Inr (js ''Hi'')) (Inr (js ''audio/mpeg'', js ''AAAA'')) ?ai ?st) =
       srtContent (handleGenerateClick (Inr (js ''Hi'')) (Inr (js ''audio/mpeg'', js ''AAAA'')) ?ai ?st')"
    using T [THEN conjunct2, THEN conjunct2] f by (rule mp)
  show ?thesis
    unfolding Let_def using c1 c2 by (intro conjI)
qed

text \<open>
  C7. When the request is rejected or the stream throws, \<open>generateSubtitles\<close> rejects
  with the one \<open>Error\<close> of its \<open>catch\<close>, and the state is the one that the calls for the
  lines completed before the failure have made. \<open>handleGenerateClick\<close> then sets its
  one error message and keeps in \<open>srtContent\<close> the serializations of those blocks.
\<close>

theorem transport_failure_keeps_blocks:
  "(ai transcript audio = Inl err \<longrightarrow>
      generateSubtitles ai transcript audio f st =
        (Inl (Error ''Failed to communicate with the AI model.''), st)) \<and>
   (ai transcript audio = Inr s \<and> throws s \<longrightarrow>
      generateSubtitles ai transcript audio f st =
        (Inl (Error ''Failed to communicate with the AI model.''),
         fold f (spec_valid_records (butlast (split_lines (concat (chunks_of s))))) st)) \<and>
   (textFile st0 \<noteq> None \<and> audioFile st0 \<noteq> None \<and> ai transcript audio = Inr s \<and> throws s \<longrightarrow>
      error (handleGenerateClick (Inr transcript) (Inr audio) ai st0) =
        Some ''Failed to generate subtitles. Please check the files and try again.'' \<and>
      srtContent (handleGenerateClick (Inr transcript) (Inr audio) ai st0) =
        concat (map spec_block_text
          (spec_valid_records (butlast (split_lines (concat (chunks_of s)))))))"
  by (simp add: generateSubtitles_rejected generateSubtitles_split handleGenerateClick_state
      spec_run_fails_def spec_run_text_def)

theorem transport_failure_keeps_blocks_witness:
  \<open>(let ai = (\<lambda>transcript audio. Inr
               (Chunk (Some (js ''{"id":1,"startTime":"00:00:00,000","endTime":"00:00:01,000","text":"Hi"}''
                       @ [NL] @ js ''{"id":2,"startTime":'')) Throw));
        st0 = \<lparr>textFile = Some \<lparr>name = js ''talk.txt''\<rparr>, audioFile = Some \<lparr>name = js ''talk.mp3''\<rparr>,
               srtContent = js ''old'', isLoading = False, loadingMessage = [], error = None,
               progress = 0\<rparr>
    in generateSubtitles ai (js ''Hi'') (js ''audio/mpeg'', js ''AAAA'') record_call [] =
         (Inl (Error ''Failed to communicate with the AI model.''),
          [JObject [(js ''id'', JNumber (Finite False 1 0)), (js ''startTime'', JString (js ''00:00:00,000'')),
                    (js ''endTime'', JString (js ''00:00:01,000'')), (js ''text'', JString (js ''Hi''))]]) \<and>
       error (handleGenerateClick (Inr (js ''Hi'')) (Inr (js ''audio/mpeg'', js ''AAAA'')) ai st0) =
         Some ''Failed to generate subtitles. Please check the files and try again.'' \<and>
       srtContent (handleGenerateClick (Inr (js ''Hi'')) (Inr (js ''audio/mpeg'', js ''AAAA'')) ai st0) =
         js ''1'' @ [NL] @ js ''00:00:00,000 --> 00:00:01,000'' @ [NL] @ js ''Hi'' @ [NL, NL])\<close>
proof -
  let ?s = \<open>Chunk (Some (js ''{"id":1,"startTime":"00:00:00,000","endTime":"00:00:01,000","text":"Hi"}''
                       @ [NL] @ js ''{"id":2,"startTime":'')) Throw\<close>
  let ?ai = "(\<lambda>transcript audio. Inr ?s) :: jsstring \<Rightarrow> jsstring \<times> jsstring \<Rightarrow> js_error + stream"
  let ?st0 = "\<lparr>textFile = Some \<lparr>name = js ''talk.txt''\<rparr>, audioFile = Some \<lparr>name = js ''talk.mp3''\<rparr>,
               srtContent = js ''old'', isLoading = False, loadingMessage = [], error = None,
               progress = 0\<rparr>"
  let ?b1 = "JObject [(js ''id'', JNumber (Finite False 1 0)), (js ''startTime'', JString (js ''00:00:00,000'')),
                      (js ''endTime'', JString (js ''00:00:01,000'')), (js ''text'', JString (js ''Hi''))]"
  have r: "spec_valid_records (butlast (split_lines (concat (chunks_of ?s)))) = [?b1]"
    by code_simp
  have t1: "concat (map spec_block_text [?b1]) =
      js ''1'' @ [NL] @ js ''00:00:00,000 --> 00:00:01,000'' @ [NL] @ js ''Hi'' @ [NL, NL]"
    by code_simp
  have h2: "?ai (js ''Hi'') (js ''audio/mpeg'', js ''AAAA'') = Inr ?s \<and> throws ?s"
    by simp
  have h3: "textFile ?st0 \<noteq> None \<and> audioFile ?st0 \<noteq> None \<and>
      ?ai (js ''Hi'') (js ''audio/mpeg'', js ''AAAA'') = Inr ?s \<and> throws ?s"
    by simp
  note T = transport_failure_keeps_blocks [of ?ai "js ''Hi''" "(js ''audio/mpeg'', js ''AAAA'')" Rejected
      record_call "[]" ?s ?st0]
  have c1: "generateSubtitles ?ai (js ''Hi'') (js ''audio/mpeg'', js ''AAAA'') record_call [] =
         (Inl (Error ''Failed to communicate with the AI model.''), [?b1])"
    using T [THEN conjunct2, THEN conjunct1, THEN mp, OF h2]
    by (simp only: r) (simp add: record_call_def)
  have c23: "error (handleGenerateClick (Inr (js ''Hi'')) (Inr (js ''audio/mpeg'', js ''AAAA'')) ?ai ?st0) =
         Some ''Failed to generate subtitles. Please check the files and try again.'' \<and>
       srtContent (handleGenerateClick (Inr (js ''Hi'')) (Inr (js ''audio/mpeg'', js ''AAAA'')) ?ai ?st0) =
         js ''1'' @ [NL] @ js ''00:00:00,000 --> 00:00:01,000'' @ [NL] @ js ''Hi'' @ [NL, NL]"
    using T [THEN conjunct2, THEN conjunct2, THEN mp, OF h3]
    by (simp only: r t1)
  show ?thesis
    unfolding Let_def using c1 c23 by (intro conjI) simp_all
qed

text \<open>
  C8, as amended. After a failed run the error message is set, \<open>isLoading\<close> is off, the
  loading message is empty and \<open>progress\<close> is 0. The text assembled before the failure
  stays, and the download button is rendered, and \<open>handleDownloadClick\<close> saves a file,
  exactly when that text is not empty.
\<close>

theorem failed_run_state:
  assumes "textFile st \<noteq> None" and "audioFile st \<noteq> None"
    and "spec_run_fails fileToText fileToBase64 ai"
  shows "(let st' = handleGenerateClick fileToText fileToBase64 ai st
          in error st' = Some ''Failed to generate subtitles. Please check the files and try again.'' \<and>
             \<not> isLoading st' \<and> loadingMessage st' = [] \<and> progress st' = 0 \<and>
             srtContent st' = spec_run_text fileToText fileToBase64 ai \<and>
             (download_rendered st' \<longleftrightarrow> srtContent st' \<noteq> []) \<and>
             (handleDownloadClick st' = None \<longleftrightarrow> srtContent st' = []))"
  using assms
  by (simp add: handleGenerateClick_state download_rendered_def handleDownloadClick_def Let_def)

theorem failed_run_state_witness:
  "(let st = \<lparr>textFile = Some \<lparr>name = js ''talk.txt''\<rparr>, audioFile = Some \<lparr>name = js ''talk.mp3''\<rparr>,
              srtContent = js ''old'', isLoading = False, loadingMessage = [], error = None,
              progress = 0\<rparr>;
        st' = handleGenerateClick (Inl Rejected) (Inr (js ''audio/mpeg'', js ''AAAA''))
                (\<lambda>transcript audio. Inr Done) st
    in error st' = Some ''Failed to generate subtitles. Please check the files and try again.'' \<and>
       \<not> isLoading st' \<and> loadingMessage st' = [] \<and> progress st' = 0 \<and> srtContent st' = [] \<and>
       \<not> download_rendered st' \<and> handleDownloadClick st' = None)"
proof -
  let ?st = "\<lparr>textFile = Some \<lparr>name = js ''talk.txt''\<rparr>, audioFile = Some \<lparr>name = js ''talk.mp3''\<rparr>,
              srtContent = js ''old'', isLoading = False, loadingMessage = [], error = None,
              progress = 0\<rparr>"
  let ?ai = "(\<lambda>transcript audio. Inr Done) :: jsstring \<Rightarrow> jsstring \<times> jsstring \<Rightarrow> js_error + stream"
  have f: "textFile ?st \<noteq> None" "audioFile ?st \<noteq> None"
    by simp_all
  have x: "spec_run_fails (Inl Rejected) (Inr (js ''audio/mpeg'', js ''AAAA'')) ?ai"
    by (simp add: spec_run_fails_def)
  have e: "spec_run_text (Inl Rejected) (Inr (js ''audio/mpeg'', js ''AAAA'')) ?ai = []"
    by (simp add: spec_run_text_def)
  show ?thesis
    using failed_run_state [of ?st "Inl Rejected" "Inr (js ''audio/mpeg'', js ''AAAA'')" ?ai, OF f x]
    unfolding Let_def e by simp
qed

text \<open>
  C8 as it is written fails. The stream gives one valid record and then throws: the run
  fails, the error message is set and the progress is reset, but the block's text stays in
  \<open>srtContent\<close>, the download button is rendered and \<open>handleDownloadClick\<close> saves the
  file.
\<close>

theorem download_after_failure_counterexample:
  \<open>(let st = \<lparr>textFile = Some \<lparr>name = js ''talk.txt''\<rparr>, audioFile = Some \<lparr>name = js ''talk.mp3''\<rparr>,
              srtContent = [], isLoading = False, loadingMessage = [], error = None,
              progress = 0\<rparr>;
        ai = (\<lambda>transcript audio. Inr
               (Chunk (Some (js ''{"id":1,"startTime":"00:00:00,000","endTime":"00:00:01,000","text":"Hi"}''
                       @ [NL])) Throw));
        st' = handleGenerateClick (Inr (js ''Hi'')) (Inr (js ''audio/mpeg'', js ''AAAA'')) ai st
    in error st' = Some ''Failed to generate subtitles. Please check the files and try again.'' \<and>
       progress st' = 0 \<and> loadingMessage st' = [] \<and> \<not> isLoading st' \<and>
       download_rendered st' \<and>
       handleDownloadClick st' =
         Some \<lparr>download = js ''talk.srt'',
               blob = js ''1'' @ [NL] @ js ''00:00:00,000 --> 00:00:01,000'' @ [NL] @ js ''Hi''\<rparr>)\<close>
  by code_simp

end
